theory Spec2Isabelle
  imports Main "HOL-Library.AList"
begin

section \<open>Python values\<close>

text \<open>
  The payload of an event is schema-less: whatever \<^verbatim>\<open>json.loads\<close> returned, plus the
  sending \<^verbatim>\<open>Player\<close> object. Values are modelled by a datatype of the Python values
  that occur: \<^verbatim>\<open>None\<close>, booleans, unbounded integers, strings (a list of characters,
  each a code point below 256), lists, dictionaries in insertion order with string or
  integer keys, and a reference to a \<^verbatim>\<open>Player\<close> object. Floating-point numbers are
  outside the model.
\<close>

datatype pykey = KStr string | KInt int

datatype pyval =
    PNone
  | PBool bool
  | PInt int
  | PStr string
  | PList "pyval list"
  | PDict "(pykey \<times> pyval) list"
  | PPlayer nat

type_synonym pydict = "(pykey \<times> pyval) list"

datatype error = KeyError | ValueError | TypeError | IndexError | StructError | OutsideModel

text \<open>
  The exceptions of Python that the code can raise (\<^verbatim>\<open>struct.error\<close> as
  \<open>StructError\<close>; a JSON decoding error is a \<^verbatim>\<open>ValueError\<close>). \<open>OutsideModel\<close> is not
  one of them: it marks an input that the model leaves out, such as a JSON number with a
  fraction or a unit count beyond the exact range of a double.
\<close>

text \<open>Truth value of a Python object, as \<^verbatim>\<open>all(...)\<close> tests it.\<close>

fun truthy :: "pyval \<Rightarrow> bool" where
  "truthy PNone = False"
| "truthy (PBool b) = b"
| "truthy (PInt n) = (n \<noteq> 0)"
| "truthy (PStr s) = (s \<noteq> [])"
| "truthy (PList xs) = (xs \<noteq> [])"
| "truthy (PDict kvs) = (kvs \<noteq> [])"
| "truthy (PPlayer r) = True"

text \<open>
  \<^verbatim>\<open>int(x)\<close>: the identity on integers, 0 or 1 on booleans, a decimal parse on strings
  (surrounding whitespace stripped, an optional sign, digits with single underscores
  between them), \<^verbatim>\<open>ValueError\<close> on any other string and \<^verbatim>\<open>TypeError\<close> on every other
  object.
\<close>

definition is_space :: "char \<Rightarrow> bool" where
  "is_space c = (c \<in> set [CHR '' '', CHR 0x09, CHR 0x0A, CHR 0x0B, CHR 0x0C, CHR 0x0D,
                           CHR 0x85, CHR 0xA0])"

definition is_digit :: "char \<Rightarrow> bool" where
  "is_digit c = (48 \<le> (of_char c :: nat) \<and> (of_char c :: nat) \<le> 57)"

definition digit_val :: "char \<Rightarrow> nat" where
  "digit_val c = of_char c - 48"

definition strip :: "string \<Rightarrow> string" where
  "strip s = rev (dropWhile is_space (rev (dropWhile is_space s)))"

fun int_digits :: "bool \<Rightarrow> nat \<Rightarrow> string \<Rightarrow> nat option" where
  "int_digits prev acc [] = (if prev then Some acc else None)"
| "int_digits prev acc (c # cs) =
     (if is_digit c then int_digits True (10 * acc + digit_val c) cs
      else if c = CHR ''_'' \<and> prev then int_digits False acc cs
      else None)"

definition int_of_str :: "string \<Rightarrow> error + int" where
  "int_of_str s =
     (case strip s of
        [] \<Rightarrow> Inl ValueError
      | c # cs \<Rightarrow>
          if c = CHR ''-'' then
            (case int_digits False 0 cs of None \<Rightarrow> Inl ValueError | Some n \<Rightarrow> Inr (- int n))
          else if c = CHR ''+'' then
            (case int_digits False 0 cs of None \<Rightarrow> Inl ValueError | Some n \<Rightarrow> Inr (int n))
          else
            (case int_digits False 0 (c # cs) of None \<Rightarrow> Inl ValueError | Some n \<Rightarrow> Inr (int n)))"

fun py_int :: "pyval \<Rightarrow> error + int" where
  "py_int (PInt n) = Inr n"
| "py_int (PBool b) = Inr (if b then 1 else 0)"
| "py_int (PStr s) = int_of_str s"
| "py_int PNone = Inl TypeError"
| "py_int (PList xs) = Inl TypeError"
| "py_int (PDict kvs) = Inl TypeError"
| "py_int (PPlayer r) = Inl TypeError"

text \<open>
  What a \<^verbatim>\<open>for\<close> loop iterates over: the elements of a list, the one-character
  strings of a string, the keys of a dictionary; any other object is not iterable.
\<close>

fun key_val :: "pykey \<Rightarrow> pyval" where
  "key_val (KStr s) = PStr s"
| "key_val (KInt n) = PInt n"

fun py_iter :: "pyval \<Rightarrow> error + pyval list" where
  "py_iter (PList xs) = Inr xs"
| "py_iter (PStr s) = Inr (map (\<lambda>c. PStr [c]) s)"
| "py_iter (PDict kvs) = Inr (map (key_val \<circ> fst) kvs)"
| "py_iter PNone = Inl TypeError"
| "py_iter (PBool b) = Inl TypeError"
| "py_iter (PInt n) = Inl TypeError"
| "py_iter (PPlayer r) = Inl TypeError"

text \<open>
  \<^verbatim>\<open>round(n / 100.0)\<close> for an integer \<open>n\<close>: Python 3 converts \<open>n\<close> to a double,
  divides, and rounds the quotient to the nearest integer, a tie to the even one. Below
  \<open>2 ^ 53\<close> in absolute value \<open>n\<close> is a double as it is, its quotient by 100 is less than
  \<open>2 ^ 47\<close> and so is off the exact one by less than \<open>2 ^ -7\<close>, while an exact quotient that
  is not a tie is at least a hundredth away from every tie: the double rounds like the
  exact quotient, which \<open>round_half_even\<close> computes. From \<open>2 ^ 53\<close> on the double
  arithmetic rounds otherwise, and raises \<^verbatim>\<open>OverflowError\<close> beyond its range; the model
  does not follow it there and answers \<open>OutsideModel\<close>.
\<close>

definition round_half_even :: "int \<Rightarrow> int \<Rightarrow> int" where
  "round_half_even n d =
     (let q = n div d; r = n mod d
      in if 2 * r < d then q
         else if d < 2 * r then q + 1
         else if even q then q else q + 1)"

definition py_round_ratio :: "int \<Rightarrow> int \<Rightarrow> error + int" where
  "py_round_ratio n d = (if \<bar>n\<bar> < 2 ^ 53 then Inr (round_half_even n d) else Inl OutsideModel)"

section \<open>Data model\<close>

text \<open>
  Modelled from the spec: the class \<^verbatim>\<open>Player\<close> (lib/player.py) is not among the
  sources. A player has an integer id, a network address, a \<^verbatim>\<open>ready\<close> flag (the value
  the client submitted last), a \<^verbatim>\<open>rendered\<close> flag and the sequence of unit ids it
  owns; \<^verbatim>\<open>Player(address, id)\<close> starts not ready, not rendered and without units, and
  \<^verbatim>\<open>info()\<close> is the public projection (id and address).
\<close>

record player =
  pid :: int
  address :: pyval
  ready :: pyval
  rendered :: bool
  object_ids :: "int list"

definition Player :: "pyval \<Rightarrow> int \<Rightarrow> player" where
  "Player addr i = \<lparr>pid = i, address = addr, ready = PBool False, rendered = False, object_ids = []\<rparr>"

definition info :: "player \<Rightarrow> pyval" where
  "info p = PDict [(KStr ''id'', PInt (pid p)), (KStr ''address'', address p)]"

text \<open>
  Modelled from the spec: the class \<^verbatim>\<open>Planet\<close> (planet.py) is not among the sources.
  A planet has an owner (a player id or \<^verbatim>\<open>None\<close>) and a unit count; \<^verbatim>\<open>Planet.cache\<close>
  is the registry of the planets by id, here an association list in insertion order, and
  \<^verbatim>\<open>get_dict()\<close> is the planet as the map-init broadcast carries it.
\<close>

record planet =
  owner :: "int option"
  units_count :: int

type_synonym cache = "(int \<times> planet) list"

fun owner_val :: "int option \<Rightarrow> pyval" where
  "owner_val None = PNone"
| "owner_val (Some i) = PInt i"

definition get_dict :: "int \<times> planet \<Rightarrow> pyval" where
  "get_dict kp = PDict [(KStr ''id'', PInt (fst kp)),
                        (KStr ''units_count'', PInt (units_count (snd kp))),
                        (KStr ''owner'', owner_val (owner (snd kp)))]"

text \<open>
  The two collaborators of the handler that are not among the sources are parameters:
  \<open>map_run\<close> is \<^verbatim>\<open>MapGenerator().run(player_ids)\<close>, the planets of a fresh map, which
  become \<^verbatim>\<open>Planet.cache\<close>; \<open>id_seq\<close> is the sequence of values that
  \<^verbatim>\<open>next(ID_GENERATOR)\<close> yields, the state counting how many have been drawn.
\<close>

record env =
  map_run :: "int list \<Rightarrow> cache"
  id_seq :: "nat \<Rightarrow> int"

text \<open>
  Events (\<^verbatim>\<open>GameEvent\<close> in lib/events.py): a name and a payload. A \<^verbatim>\<open>ClientEvent\<close> is
  built from the sending player and the decoded JSON object \<open>o\<close>: its name is
  \<^verbatim>\<open>o.pop('name')\<close> and its payload is \<^verbatim>\<open>{**o, 'player': player}\<close>.
\<close>

record client_event =
  ce_name :: pyval
  ce_player :: nat
  ce_fields :: pydict

definition payload :: "client_event \<Rightarrow> pydict" where
  "payload ev = AList.update (KStr ''player'') (PPlayer (ce_player ev)) (ce_fields ev)"

record server_event =
  se_name :: pyval
  se_payload :: pydict

text \<open>
  The server object. Sockets and \<^verbatim>\<open>Player\<close> objects are named by natural numbers; the
  objects live in \<open>heap\<close>, so that an event keeps its player after the player map
  dropped it. The outbound queue is the list of the events notified so far (the sender
  thread only reads it), the inbound queue is first in, first out.
\<close>

record state =
  clients :: "nat list"
  players :: "(nat \<times> nat) list"
  heap :: "nat \<Rightarrow> player"
  next_ref :: nat
  max_clients_count :: nat
  next_player_id :: int
  readiness :: bool
  game_started :: bool
  planets :: cache
  id_pos :: nat
  handler_queue :: "client_event list"
  sender_queue :: "server_event list"

definition init :: "nat \<Rightarrow> state" where
  "init max_client_count =
     \<lparr>clients = [], players = [], heap = (\<lambda>_. Player PNone 0), next_ref = 0,
      max_clients_count = max_client_count, next_player_id = 0,
      readiness = False, game_started = False, planets = [], id_pos = 0,
      handler_queue = [], sender_queue = []\<rparr>"

definition notify :: "pyval \<Rightarrow> pydict \<Rightarrow> state \<Rightarrow> state" where
  "notify n args s = s\<lparr>sender_queue := sender_queue s @ [\<lparr>se_name = n, se_payload = args\<rparr>]\<rparr>"

section \<open>Accepting and dropping clients\<close>

definition accepting :: "state \<Rightarrow> bool" where
  "accepting s = (\<not> game_started s \<and> \<not> readiness s \<and> length (clients s) < max_clients_count s)"

definition wait_for_client :: "pyval \<Rightarrow> state \<Rightarrow> state" where
  "wait_for_client addr s =
     (if accepting s then
        let client = next_ref s;
            i = next_player_id s + 1;
            p = Player addr i;
            s1 = s\<lparr>clients := clients s @ [client],
                   next_player_id := i,
                   next_ref := Suc (next_ref s),
                   heap := (heap s)(client := p),
                   players := AList.update client client (players s)\<rparr>
        in notify (PStr ''connect'') [(KStr ''player'', info p)] s1
      else s)"

definition remove_client :: "nat \<Rightarrow> state \<Rightarrow> state" where
  "remove_client c s =
     s\<lparr>clients := remove1 c (clients s), players := AList.delete c (players s)\<rparr>"

section \<open>The handler\<close>

text \<open>
  One turn of the loop of \<^verbatim>\<open>Server.__handler\<close> on a dequeued event. An exception leaves
  the handler where it is raised: the result is the state reached so far, with
  everything already mutated, and the exception.
\<close>

type_synonym result = "state \<times> error option"

definition payload_get :: "client_event \<Rightarrow> string \<Rightarrow> error + pyval" where
  "payload_get ev k = (case map_of (payload ev) (KStr k) of None \<Rightarrow> Inl KeyError | Some v \<Rightarrow> Inr v)"

definition payload_int :: "client_event \<Rightarrow> string \<Rightarrow> error + int" where
  "payload_int ev k = (case payload_get ev k of Inl e \<Rightarrow> Inl e | Inr v \<Rightarrow> py_int v)"

definition cache_get :: "cache \<Rightarrow> int \<Rightarrow> error + planet" where
  "cache_get c k = (case map_of c k of None \<Rightarrow> Inl KeyError | Some p \<Rightarrow> Inr p)"

definition set_player :: "nat \<Rightarrow> (player \<Rightarrow> player) \<Rightarrow> state \<Rightarrow> state" where
  "set_player r f s = s\<lparr>heap := (heap s)(r := f (heap s r))\<rparr>"

definition set_planet :: "int \<Rightarrow> planet \<Rightarrow> state \<Rightarrow> state" where
  "set_planet k p s = s\<lparr>planets := AList.update k p (planets s)\<rparr>"

subsection \<open>ready and rendered\<close>

definition all_ready :: "state \<Rightarrow> bool" where
  "all_ready s = list_all (\<lambda>cr. truthy (ready (heap s (snd cr)))) (players s)"

definition all_rendered :: "state \<Rightarrow> bool" where
  "all_rendered s = list_all (\<lambda>cr. rendered (heap s (snd cr))) (players s)"

definition player_ids :: "state \<Rightarrow> int list" where
  "player_ids s = map (\<lambda>cr. pid (heap s (snd cr))) (players s)"

definition generate_map :: "env \<Rightarrow> state \<Rightarrow> state" where
  "generate_map E s =
     (let game_planets = map_run E (player_ids s);
          game_map = map get_dict game_planets;
          s1 = s\<lparr>planets := game_planets, readiness := True\<rparr>
      in notify (PStr ''mapinit'') [(KStr ''map'', PList game_map)] s1)"

definition handle_ready :: "env \<Rightarrow> client_event \<Rightarrow> state \<Rightarrow> result" where
  "handle_ready E ev s =
     (case payload_get ev ''ready'' of
        Inl e \<Rightarrow> (s, Some e)
      | Inr v \<Rightarrow>
          let r = ce_player ev;
              s1 = set_player r (\<lambda>p. p\<lparr>ready := v\<rparr>) s;
              s2 = notify (ce_name ev) [(KStr ''player'', PInt (pid (heap s1 r))), (KStr ''ready'', v)] s1
          in if all_ready s2 \<and> 1 < length (players s2) then (generate_map E s2, None)
             else (s2, None))"

definition handle_rendered :: "client_event \<Rightarrow> state \<Rightarrow> result" where
  "handle_rendered ev s =
     (let s1 = set_player (ce_player ev) (\<lambda>p. p\<lparr>rendered := True\<rparr>) s
      in if all_rendered s1 then ((notify (PStr ''game_started'') [] s1)\<lparr>game_started := True\<rparr>, None)
         else (s1, None))"

subsection \<open>move, select, add_hp\<close>

definition handle_move :: "client_event \<Rightarrow> state \<Rightarrow> result" where
  "handle_move ev s =
     (case payload_int ev ''unit_id'' of
        Inl e \<Rightarrow> (s, Some e)
      | Inr u \<Rightarrow>
          if u \<in> set (object_ids (heap s (ce_player ev)))
          then (notify (ce_name ev) (payload ev) s, None) else (s, None))"

text \<open>
  The body of the loop over the requested planets: it fails before it changes anything,
  or returns the state and the dictionary \<^verbatim>\<open>punits\<close> after this planet.
\<close>

definition select_planet :: "env \<Rightarrow> nat \<Rightarrow> pyval \<Rightarrow> pyval \<Rightarrow> state \<times> pydict \<Rightarrow> error + state \<times> pydict" where
  "select_planet E r percentage x sp =
     (let s = fst sp; punits = snd sp in
      case py_int x of
        Inl e \<Rightarrow> Inl e
      | Inr planet_id \<Rightarrow>
         (case cache_get (planets s) planet_id of
            Inl e \<Rightarrow> Inl e
          | Inr p \<Rightarrow>
             if owner p = Some (pid (heap s r)) then
               (case py_int percentage of
                  Inl e \<Rightarrow> Inl e
                | Inr pc \<Rightarrow>
                   (case py_round_ratio (units_count p * pc) 100 of
                      Inl e \<Rightarrow> Inl e
                    | Inr new_ships_count \<Rightarrow>
                        let s1 = set_planet planet_id (p\<lparr>units_count := units_count p - new_ships_count\<rparr>) s;
                            ids = map (id_seq E) [id_pos s1 ..< id_pos s1 + nat new_ships_count];
                            s2 = s1\<lparr>id_pos := id_pos s1 + nat new_ships_count\<rparr>;
                            punits1 = AList.update (KInt planet_id) (PList (map PInt ids)) punits;
                            s3 = set_player r (\<lambda>pl. pl\<lparr>object_ids := object_ids pl @ ids\<rparr>) s2
                        in Inr (s3, punits1)))
             else Inr (s, punits)))"

fun select_loop :: "env \<Rightarrow> nat \<Rightarrow> pyval \<Rightarrow> pyval list \<Rightarrow> state \<times> pydict \<Rightarrow> (state \<times> pydict) \<times> error option" where
  "select_loop E r percentage [] sp = (sp, None)"
| "select_loop E r percentage (x # xs) sp =
     (case select_planet E r percentage x sp of
        Inl e \<Rightarrow> (sp, Some e)
      | Inr sp1 \<Rightarrow> select_loop E r percentage xs sp1)"

definition handle_select :: "env \<Rightarrow> client_event \<Rightarrow> state \<Rightarrow> result" where
  "handle_select E ev s =
     (case payload_get ev ''from'' of
        Inl e \<Rightarrow> (s, Some e)
      | Inr planet_ids \<Rightarrow>
         (case payload_get ev ''percentage'' of
            Inl e \<Rightarrow> (s, Some e)
          | Inr percentage \<Rightarrow>
             (case py_iter planet_ids of
                Inl e \<Rightarrow> (s, Some e)
              | Inr xs \<Rightarrow>
                 (case select_loop E (ce_player ev) percentage xs (s, []) of
                    (sp, Some e) \<Rightarrow> (fst sp, Some e)
                  | (sp, None) \<Rightarrow>
                      (notify (ce_name ev) [(KStr ''selected'', PDict (snd sp))] (fst sp), None)))))"

definition handle_add_hp :: "client_event \<Rightarrow> state \<Rightarrow> result" where
  "handle_add_hp ev s =
     (case payload_int ev ''planet_id'' of
        Inl e \<Rightarrow> (s, Some e)
      | Inr planet_id \<Rightarrow>
         (case payload_int ev ''hp_count'' of
            Inl e \<Rightarrow> (s, Some e)
          | Inr hp_count \<Rightarrow>
             (case cache_get (planets s) planet_id of
                Inl e \<Rightarrow> (s, Some e)
              | Inr p \<Rightarrow>
                 if owner p = Some (pid (heap s (ce_player ev))) then
                   (notify (ce_name ev) (payload ev)
                      (set_planet planet_id (p\<lparr>units_count := units_count p + hp_count\<rparr>) s), None)
                 else (s, None))))"

subsection \<open>damage and the game-over check\<close>

text \<open>
  The scan of the players: \<open>active\<close> collects the ids of the players that hold a unit and
  own a planet; the flag tells whether the loop left through \<^verbatim>\<open>break\<close> (two active
  players found), in which case its \<^verbatim>\<open>else\<close> branch does not run.
\<close>

definition is_active :: "state \<Rightarrow> nat \<Rightarrow> bool" where
  "is_active s r =
     (object_ids (heap s r) \<noteq> [] \<and>
      list_ex (\<lambda>kp. owner (snd kp) = Some (pid (heap s r))) (planets s))"

fun scan_players :: "state \<Rightarrow> (nat \<times> nat) list \<Rightarrow> int list \<Rightarrow> int list \<times> bool" where
  "scan_players s [] active = (active, False)"
| "scan_players s (cr # crs) active =
     (let active1 = (if is_active s (snd cr) then active @ [pid (heap s (snd cr))] else active)
      in if 2 \<le> length active1 then (active1, True) else scan_players s crs active1)"

definition game_over_reset :: "state \<Rightarrow> state" where
  "game_over_reset s = s\<lparr>readiness := False, game_started := False, players := [], clients := []\<rparr>"

definition check_game_over :: "state \<Rightarrow> result" where
  "check_game_over s =
     (case scan_players s (players s) [] of
        (active, True) \<Rightarrow> (s, None)
      | (active, False) \<Rightarrow>
         (case active of
            [] \<Rightarrow> (s, Some IndexError)
          | winner # _ \<Rightarrow>
              (game_over_reset (notify (PStr ''gameover'') [(KStr ''winner'', PInt winner)] s), None)))"

definition hp_count_of :: "client_event \<Rightarrow> error + int" where
  "hp_count_of ev =
     (case map_of (payload ev) (KStr ''hp_count'') of None \<Rightarrow> py_int (PInt 1) | Some v \<Rightarrow> py_int v)"

definition hit_planet :: "int \<Rightarrow> int \<Rightarrow> planet \<Rightarrow> planet" where
  "hit_planet player_id hp_count p =
     (if owner p = Some player_id then p\<lparr>units_count := units_count p + hp_count\<rparr>
      else let p1 = p\<lparr>units_count := units_count p - hp_count\<rparr>
           in if units_count p1 < 0 then p1\<lparr>owner := Some player_id, units_count := \<bar>units_count p1\<bar>\<rparr>
              else p1)"

definition apply_damage :: "client_event \<Rightarrow> int \<Rightarrow> int \<Rightarrow> int \<Rightarrow> planet \<Rightarrow> state \<Rightarrow> state" where
  "apply_damage ev planet_id unit_id hp_count p s =
     (let r = ce_player ev in
      if unit_id \<in> set (object_ids (heap s r)) then
        let p1 = hit_planet (pid (heap s r)) hp_count p;
            s1 = set_planet planet_id p1 s;
            s2 = set_player r (\<lambda>pl. pl\<lparr>object_ids := remove1 unit_id (object_ids pl)\<rparr>) s1
        in notify (ce_name ev)
             [(KStr ''planet_change'',
               PDict [(KStr ''id'', PInt planet_id),
                      (KStr ''units_count'', PInt (units_count p1)),
                      (KStr ''owner'', owner_val (owner p1))]),
              (KStr ''unit_id'', PInt unit_id)] s2
      else s)"

definition handle_damage :: "client_event \<Rightarrow> state \<Rightarrow> result" where
  "handle_damage ev s =
     (case payload_int ev ''planet_id'' of
        Inl e \<Rightarrow> (s, Some e)
      | Inr planet_id \<Rightarrow>
         (case payload_int ev ''unit_id'' of
            Inl e \<Rightarrow> (s, Some e)
          | Inr unit_id \<Rightarrow>
             (case hp_count_of ev of
                Inl e \<Rightarrow> (s, Some e)
              | Inr hp_count \<Rightarrow>
                 (case cache_get (planets s) planet_id of
                    Inl e \<Rightarrow> (s, Some e)
                  | Inr p \<Rightarrow> check_game_over (apply_damage ev planet_id unit_id hp_count p s)))))"

subsection \<open>Dispatch\<close>

definition handle_lobby :: "env \<Rightarrow> client_event \<Rightarrow> state \<Rightarrow> result" where
  "handle_lobby E ev s =
     (if ce_name ev = PStr ''ready'' then handle_ready E ev s
      else if ce_name ev = PStr ''rendered'' then handle_rendered ev s
      else (s, None))"

definition handle_game :: "env \<Rightarrow> client_event \<Rightarrow> state \<Rightarrow> result" where
  "handle_game E ev s =
     (if ce_name ev = PStr ''move'' then handle_move ev s
      else if ce_name ev = PStr ''select'' then handle_select E ev s
      else if ce_name ev = PStr ''add_hp'' then handle_add_hp ev s
      else if ce_name ev = PStr ''damage'' then handle_damage ev s
      else (s, None))"

definition handle :: "env \<Rightarrow> client_event \<Rightarrow> state \<Rightarrow> result" where
  "handle E ev s =
     (case handle_lobby E ev s of
        (s1, Some e) \<Rightarrow> (s1, Some e)
      | (s1, None) \<Rightarrow> if game_started s1 then handle_game E ev s1 else (s1, None))"

section \<open>Runs of the server\<close>

text \<open>
  The threads of the server, interleaved one action at a time: the receiver accepts a
  connection, reads a frame from a client (given decoded, as a name and the object of the other fields)
  and queues it with the client's player, or drops a client that closed; the handler
  takes the next event off its queue. A turn of the handler that raises leaves the state
  as the exception found it.
\<close>

datatype action = Accept pyval | Data nat pyval pydict | Close nat | Step

definition wait_for_client_data :: "nat \<Rightarrow> pyval \<Rightarrow> pydict \<Rightarrow> state \<Rightarrow> state" where
  "wait_for_client_data c n obj s =
     (case map_of (players s) c of
        None \<Rightarrow> s
      | Some r \<Rightarrow>
          s\<lparr>handler_queue := handler_queue s @ [\<lparr>ce_name = n, ce_player = r, ce_fields = obj\<rparr>]\<rparr>)"

definition handler_turn :: "env \<Rightarrow> state \<Rightarrow> result" where
  "handler_turn E s =
     (case handler_queue s of
        [] \<Rightarrow> (s, None)
      | ev # q \<Rightarrow> handle E ev (s\<lparr>handler_queue := q\<rparr>))"

fun step :: "env \<Rightarrow> action \<Rightarrow> state \<Rightarrow> state" where
  "step E (Accept addr) s = wait_for_client addr s"
| "step E (Data c n obj) s = wait_for_client_data c n obj s"
| "step E (Close c) s = (if c \<in> set (clients s) then remove_client c s else s)"
| "step E Step s = fst (handler_turn E s)"

fun run :: "env \<Rightarrow> state \<Rightarrow> action list \<Rightarrow> state" where
  "run E s [] = s"
| "run E s (a # as) = run E (step E a s) as"

text \<open>
  The ids given to the players that a run creates, in the order of their creation: an
  accepted connection contributes the id of the \<^verbatim>\<open>Player\<close> object made for it.
\<close>

fun accepted :: "action \<Rightarrow> state \<Rightarrow> int list" where
  "accepted (Accept addr) s =
     (if accepting s then [pid (heap (wait_for_client addr s) (next_ref s))] else [])"
| "accepted (Data c n obj) s = []"
| "accepted (Close c) s = []"
| "accepted Step s = []"

fun assigned_ids :: "env \<Rightarrow> state \<Rightarrow> action list \<Rightarrow> int list" where
  "assigned_ids E s [] = []"
| "assigned_ids E s (a # as) = accepted a s @ assigned_ids E (step E a s) as"

section \<open>Observations\<close>

text \<open>How many map-init events have been broadcast: one for each map generation.\<close>

definition map_inits :: "state \<Rightarrow> nat" where
  "map_inits s = length (filter (\<lambda>e. se_name e = PStr ''mapinit'') (sender_queue s))"

text \<open>
  The players that qualify in the game-over check, in the words of the spec: those of the
  player map that hold at least one unit and own at least one planet, by their ids.
\<close>

definition active_ids :: "state \<Rightarrow> int list" where
  "active_ids s = map (\<lambda>cr. pid (heap s (snd cr))) (filter (\<lambda>cr. is_active s (snd cr)) (players s))"

text \<open>
  When a ready event is due to generate the map: the event carries a \<^verbatim>\<open>ready\<close> value
  and, with that value recorded as the sender's flag, every player of the player map is
  ready and the map holds more than one player.
\<close>

definition map_due :: "client_event \<Rightarrow> state \<Rightarrow> bool" where
  "map_due ev s =
     (ce_name ev = PStr ''ready'' \<and>
      (case payload_get ev ''ready'' of
         Inl e \<Rightarrow> False
       | Inr v \<Rightarrow> all_ready (set_player (ce_player ev) (\<lambda>p. p\<lparr>ready := v\<rparr>) s)
                  \<and> 1 < length (players s)))"

text \<open>
  The state in which the loop of a select event reaches the requested planet number \<open>j\<close>
  (counted from 0), that is after \<open>j\<close> turns of the loop; \<open>ids_drawn\<close> are the ids the
  generator has yielded so far.
\<close>

definition loop_state :: "env \<Rightarrow> nat \<Rightarrow> pyval \<Rightarrow> pyval list \<Rightarrow> state \<Rightarrow> nat \<Rightarrow> state" where
  "loop_state E r percentage xs s j = fst (fst (select_loop E r percentage (take j xs) (s, [])))"

definition ids_drawn :: "env \<Rightarrow> state \<Rightarrow> int set" where
  "ids_drawn E s = id_seq E ` {..< id_pos s}"

section \<open>The wire format\<close>

text \<open>
  \<^verbatim>\<open>ServerEvent.request\<close> (lib/events.py) is
  \<^verbatim>\<open>json.dumps({'name': self.name, **self.payload})\<close>, prefixed with
  \<^verbatim>\<open>struct.pack('i', len(string))\<close> and encoded as UTF-8. The JSON text is the one
  \<^verbatim>\<open>json.dumps\<close> writes with its default settings: \<^verbatim>\<open>", "\<close> and \<^verbatim>\<open>": "\<close> as
  separators, every character outside the printable ASCII range escaped, and a dictionary
  key that is an integer written as the string of its decimal digits. An object that is
  not a JSON value (a \<^verbatim>\<open>Player\<close>) makes it raise \<^verbatim>\<open>TypeError\<close>.
\<close>

subsection \<open>The limits of the interpreter\<close>





subsection \<open>Writing JSON\<close>

definition hex_digit :: "nat \<Rightarrow> char" where
  "hex_digit n = (if n < 10 then char_of (48 + n) else char_of (87 + n))"

definition is_printable :: "char \<Rightarrow> bool" where
  "is_printable c = (32 \<le> (of_char c :: nat) \<and> (of_char c :: nat) \<le> 126)"

definition escape_char :: "char \<Rightarrow> string" where
  "escape_char c =
     (if c = CHR 0x22 then [CHR 0x5C, CHR 0x22]
      else if c = CHR 0x5C then [CHR 0x5C, CHR 0x5C]
      else if c = CHR 0x0A then [CHR 0x5C, CHR ''n'']
      else if c = CHR 0x0D then [CHR 0x5C, CHR ''r'']
      else if c = CHR 0x09 then [CHR 0x5C, CHR ''t'']
      else if c = CHR 0x08 then [CHR 0x5C, CHR ''b'']
      else if c = CHR 0x0C then [CHR 0x5C, CHR ''f'']
      else if is_printable c then [c]
      else [CHR 0x5C, CHR ''u'', CHR ''0'', CHR ''0'',
            hex_digit (of_char c div 16), hex_digit (of_char c mod 16)])"

definition quote :: "string \<Rightarrow> string" where
  "quote s = CHR 0x22 # concat (map escape_char s) @ [CHR 0x22]"








subsection \<open>Reading JSON\<close>



definition hex_val :: "char \<Rightarrow> nat option" where
  "hex_val c =
     (let n = (of_char c :: nat) in
      if 48 \<le> n \<and> n \<le> 57 then Some (n - 48)
      else if 97 \<le> n \<and> n \<le> 102 then Some (n - 87)
      else if 65 \<le> n \<and> n \<le> 70 then Some (n - 55)
      else None)"

definition hex4 :: "char \<Rightarrow> char \<Rightarrow> char \<Rightarrow> char \<Rightarrow> nat option" where
  "hex4 a b c d =
     (case (hex_val a, hex_val b, hex_val c, hex_val d) of
        (Some w, Some x, Some y, Some z) \<Rightarrow> Some (4096 * w + 256 * x + 16 * y + z)
      | _ \<Rightarrow> None)"

definition unescape :: "char \<Rightarrow> char option" where
  "unescape e =
     (if e = CHR 0x22 then Some (CHR 0x22)
      else if e = CHR 0x5C then Some (CHR 0x5C)
      else if e = CHR ''/'' then Some (CHR ''/'')
      else if e = CHR ''n'' then Some (CHR 0x0A)
      else if e = CHR ''r'' then Some (CHR 0x0D)
      else if e = CHR ''t'' then Some (CHR 0x09)
      else if e = CHR ''b'' then Some (CHR 0x08)
      else if e = CHR ''f'' then Some (CHR 0x0C)
      else None)"

definition cons_result :: "'a \<Rightarrow> (error + 'a list \<times> string) \<Rightarrow> error + 'a list \<times> string" where
  "cons_result x r = (case r of Inl e \<Rightarrow> Inl e | Inr (xs, rest) \<Rightarrow> Inr (x # xs, rest))"

text \<open>The characters of a string after its opening quote, up to the closing one.\<close>

fun parse_str :: "string \<Rightarrow> error + string \<times> string" where
  "parse_str [] = Inl ValueError"
| "parse_str (c # cs) =
     (if c = CHR 0x22 then Inr ([], cs)
      else if c = CHR 0x5C then
        (case cs of
           [] \<Rightarrow> Inl ValueError
         | e # es \<Rightarrow>
             if e = CHR ''u'' then
               (case es of
                  a # b # c1 # d # rest \<Rightarrow>
                    (case hex4 a b c1 d of
                       None \<Rightarrow> Inl ValueError
                     | Some n \<Rightarrow> if n < 256 then cons_result (char_of n) (parse_str rest)
                                else Inl OutsideModel)
                | _ \<Rightarrow> Inl ValueError)
             else
               (case unescape e of
                  None \<Rightarrow> Inl ValueError
                | Some ch \<Rightarrow> cons_result ch (parse_str es)))
      else if (of_char c :: nat) < 32 then Inl ValueError
      else cons_result c (parse_str cs))"








subsection \<open>Frames\<close>










section \<open>Reading back what was written\<close>






text \<open>Text of 7-bit characters, which UTF-8 encodes as it is.\<close>

definition ascii :: "string \<Rightarrow> bool" where
  "ascii s = list_all (\<lambda>c. (of_char c :: nat) < 128) s"


section \<open>A small match\<close>

text \<open>
  Concrete collaborators and frames, for the runs that the theorems below are tried on:
  a map of three planets (one of each player, one neutral) and unit ids counted from 100.
\<close>

definition match_env :: env where
  "match_env =
     \<lparr>map_run = (\<lambda>ids. [(1, \<lparr>owner = Some 1, units_count = 10\<rparr>),
                        (2, \<lparr>owner = Some 2, units_count = 5\<rparr>),
                        (3, \<lparr>owner = None, units_count = 3\<rparr>)]),
      id_seq = (\<lambda>n. 100 + int n)\<rparr>"

definition ready_data :: "nat \<Rightarrow> action" where
  "ready_data c = Data c (PStr ''ready'') [(KStr ''ready'', PBool True)]"

definition rendered_data :: "nat \<Rightarrow> action" where
  "rendered_data c = Data c (PStr ''rendered'') []"

definition select_data :: "nat \<Rightarrow> int list \<Rightarrow> int \<Rightarrow> action" where
  "select_data c ks pc =
     Data c (PStr ''select'') [(KStr ''from'', PList (map PInt ks)), (KStr ''percentage'', PInt pc)]"

definition damage_data :: "nat \<Rightarrow> int \<Rightarrow> int \<Rightarrow> int \<Rightarrow> action" where
  "damage_data c k u h =
     Data c (PStr ''damage'')
       [(KStr ''planet_id'', PInt k), (KStr ''unit_id'', PInt u), (KStr ''hp_count'', PInt h)]"

definition lobby :: "action list" where
  "lobby = [Accept PNone, Accept PNone]"

definition all_set :: "action list" where
  "all_set = lobby @ [ready_data 0, Step, ready_data 1, Step]"

definition started :: "action list" where
  "started = all_set @ [rendered_data 0, Step, rendered_data 1, Step]"

text \<open>
  A match that player 1 wins: it launches five units from its planet and takes the
  planet of player 2, who has no unit.
\<close>

definition won :: "action list" where
  "won = started @ [select_data 0 [1] 50, Step, damage_data 0 2 100 7, Step]"

text \<open>
  Player 1 launches a single unit and spends it on the planet of player 2: the frame of
  the attack is queued.
\<close>

definition crashing :: "action list" where
  "crashing = started @ [select_data 0 [1] 10, Step, damage_data 0 2 100 7]"

text \<open>
  Player 1 sends two attacks back to back: the first one, on the neutral planet, ends the
  game, since player 2 has no unit; the second one, on the planet of player 2, is still in
  the queue.
\<close>

definition late :: "action list" where
  "late = started @ [select_data 0 [1] 50, Step, damage_data 0 3 100 7, damage_data 0 2 101 7, Step]"

definition late_damage :: client_event where
  "late_damage = \<lparr>ce_name = PStr ''damage'', ce_player = 0,
      ce_fields = [(KStr ''planet_id'', PInt 2), (KStr ''unit_id'', PInt 101), (KStr ''hp_count'', PInt 7)]\<rparr>"

text \<open>The match once player 1 has launched five units, and its first attack.\<close>

definition armed :: state where
  "armed = run match_env (init 8) (started @ [select_data 0 [1] 50, Step])"

definition first_hit :: client_event where
  "first_hit = \<lparr>ce_name = PStr ''damage'', ce_player = 0,
      ce_fields = [(KStr ''planet_id'', PInt 2), (KStr ''unit_id'', PInt 100), (KStr ''hp_count'', PInt 7)]\<rparr>"

text \<open>Both players ready, and player 1 saying so once more; one player alone, rendering.\<close>

definition ready_again :: client_event where
  "ready_again = \<lparr>ce_name = PStr ''ready'', ce_player = 0, ce_fields = [(KStr ''ready'', PBool True)]\<rparr>"

definition alone :: state where
  "alone = run match_env (init 8) [Accept PNone]"

definition lone_rendered :: client_event where
  "lone_rendered = \<lparr>ce_name = PStr ''rendered'', ce_player = 0, ce_fields = []\<rparr>"

text \<open>
  Player 2 has launched every unit of its planet, player 1 half of its own; an attack of
  player 1 that carries no \<^verbatim>\<open>hp_count\<close>.
\<close>

definition drained :: state where
  "drained = run match_env (init 8) (started @ [select_data 1 [2] 100, Step, select_data 0 [1] 50, Step])"

definition bare_hit :: "int \<Rightarrow> client_event" where
  "bare_hit u = \<lparr>ce_name = PStr ''damage'', ce_player = 0,
      ce_fields = [(KStr ''planet_id'', PInt 2), (KStr ''unit_id'', PInt u)]\<rparr>"

text \<open>Launches of player 1 from its planet: twice its units, half of them, minus half.\<close>

definition launch :: "int \<Rightarrow> client_event" where
  "launch pc = \<lparr>ce_name = PStr ''select'', ce_player = 0,
      ce_fields = [(KStr ''from'', PList [PInt 1]), (KStr ''percentage'', PInt pc)]\<rparr>"




lemmas match_defs =
  match_env_def ready_data_def rendered_data_def select_data_def damage_data_def
  lobby_def all_set_def started_def won_def

section \<open>Frame lemmas\<close>

lemma notify_fields [simp]:
  "clients (notify n a s) = clients s"
  "players (notify n a s) = players s"
  "heap (notify n a s) = heap s"
  "next_ref (notify n a s) = next_ref s"
  "max_clients_count (notify n a s) = max_clients_count s"
  "next_player_id (notify n a s) = next_player_id s"
  "readiness (notify n a s) = readiness s"
  "game_started (notify n a s) = game_started s"
  "planets (notify n a s) = planets s"
  "id_pos (notify n a s) = id_pos s"
  "handler_queue (notify n a s) = handler_queue s"
  "sender_queue (notify n a s) = sender_queue s @ [\<lparr>se_name = n, se_payload = a\<rparr>]"
  by (simp_all add: notify_def)

lemma set_player_fields [simp]:
  "clients (set_player r f s) = clients s"
  "players (set_player r f s) = players s"
  "heap (set_player r f s) = (heap s)(r := f (heap s r))"
  "next_ref (set_player r f s) = next_ref s"
  "max_clients_count (set_player r f s) = max_clients_count s"
  "next_player_id (set_player r f s) = next_player_id s"
  "readiness (set_player r f s) = readiness s"
  "game_started (set_player r f s) = game_started s"
  "planets (set_player r f s) = planets s"
  "id_pos (set_player r f s) = id_pos s"
  "handler_queue (set_player r f s) = handler_queue s"
  "sender_queue (set_player r f s) = sender_queue s"
  by (simp_all add: set_player_def)

lemma set_planet_fields [simp]:
  "clients (set_planet k p s) = clients s"
  "players (set_planet k p s) = players s"
  "heap (set_planet k p s) = heap s"
  "next_ref (set_planet k p s) = next_ref s"
  "max_clients_count (set_planet k p s) = max_clients_count s"
  "next_player_id (set_planet k p s) = next_player_id s"
  "readiness (set_planet k p s) = readiness s"
  "game_started (set_planet k p s) = game_started s"
  "planets (set_planet k p s) = AList.update k p (planets s)"
  "id_pos (set_planet k p s) = id_pos s"
  "handler_queue (set_planet k p s) = handler_queue s"
  "sender_queue (set_planet k p s) = sender_queue s"
  by (simp_all add: set_planet_def)

lemma game_over_reset_fields [simp]:
  "clients (game_over_reset s) = []"
  "players (game_over_reset s) = []"
  "heap (game_over_reset s) = heap s"
  "next_ref (game_over_reset s) = next_ref s"
  "max_clients_count (game_over_reset s) = max_clients_count s"
  "next_player_id (game_over_reset s) = next_player_id s"
  "readiness (game_over_reset s) = False"
  "game_started (game_over_reset s) = False"
  "planets (game_over_reset s) = planets s"
  "id_pos (game_over_reset s) = id_pos s"
  "handler_queue (game_over_reset s) = handler_queue s"
  "sender_queue (game_over_reset s) = sender_queue s"
  by (simp_all add: game_over_reset_def)

lemma generate_map_fields [simp]:
  "clients (generate_map E s) = clients s"
  "players (generate_map E s) = players s"
  "heap (generate_map E s) = heap s"
  "next_ref (generate_map E s) = next_ref s"
  "max_clients_count (generate_map E s) = max_clients_count s"
  "next_player_id (generate_map E s) = next_player_id s"
  "readiness (generate_map E s) = True"
  "game_started (generate_map E s) = game_started s"
  "planets (generate_map E s) = map_run E (player_ids s)"
  "id_pos (generate_map E s) = id_pos s"
  "handler_queue (generate_map E s) = handler_queue s"
  by (simp_all add: generate_map_def Let_def)

text \<open>The counter of player ids is out of the handler's reach.\<close>

lemma select_planet_npi:
  "select_planet E r pc x sp = Inr sp1 \<Longrightarrow> next_player_id (fst sp1) = next_player_id (fst sp)"
  by (auto simp: select_planet_def Let_def split: sum.splits if_splits)

lemma select_loop_npi:
  "select_loop E r pc xs sp = (sp1, e) \<Longrightarrow> next_player_id (fst sp1) = next_player_id (fst sp)"
  by (induction xs arbitrary: sp) (auto split: sum.splits dest: select_planet_npi)

lemma check_game_over_npi: "next_player_id (fst (check_game_over s)) = next_player_id s"
  by (simp add: check_game_over_def split: prod.splits bool.splits list.splits)

lemma handle_npi: "next_player_id (fst (handle E ev s)) = next_player_id s"
proof -
  have lobby: "next_player_id (fst (handle_lobby E ev s)) = next_player_id s" for s
    by (simp add: handle_lobby_def handle_ready_def handle_rendered_def Let_def split: sum.splits)
  have sel: "next_player_id (fst (handle_select E ev s)) = next_player_id s" for s
    by (auto simp: handle_select_def split: sum.splits prod.splits option.splits
             dest: select_loop_npi)
  have dmg: "next_player_id (fst (handle_damage ev s)) = next_player_id s" for s
    by (simp add: handle_damage_def apply_damage_def check_game_over_npi Let_def split: sum.splits)
  have game: "next_player_id (fst (handle_game E ev s)) = next_player_id s" for s
    by (simp add: handle_game_def handle_move_def handle_add_hp_def sel dmg split: sum.splits)
  show ?thesis
    using lobby [of s] game [of "fst (handle_lobby E ev s)"]
    by (auto simp: handle_def split: prod.splits option.splits)
qed

lemma step_npi:
  "next_player_id (step E a s) = next_player_id s + int (length (accepted a s))"
proof (cases a)
  case (Accept addr)
  then show ?thesis by (simp add: wait_for_client_def Let_def)
next
  case (Data c n obj)
  then show ?thesis by (simp add: wait_for_client_data_def split: option.splits)
next
  case (Close c)
  then show ?thesis by (simp add: remove_client_def)
next
  case Step
  then show ?thesis by (simp add: handler_turn_def handle_npi split: list.splits)
qed

lemma accepted_id: "accepted a s = [] \<or> accepted a s = [next_player_id s + 1]"
  by (cases a) (simp_all add: wait_for_client_def Let_def Player_def)

lemma assigned_ids_from:
  "assigned_ids E s acts =
     map (\<lambda>i. next_player_id s + int i) [1 ..< Suc (length (assigned_ids E s acts))]"
proof (induction acts arbitrary: s)
  case Nil
  show ?case by simp
next
  case (Cons a acts)
  let ?rest = "assigned_ids E (step E a s) acts"
  have IH: "?rest = map (\<lambda>i. next_player_id (step E a s) + int i) [1 ..< Suc (length ?rest)]"
    by (rule Cons.IH)
  from accepted_id [of a s] show ?case
  proof
    assume e: "accepted a s = []"
    with IH step_npi [of E a s] show ?thesis by simp
  next
    assume e: "accepted a s = [next_player_id s + 1]"
    have "map (\<lambda>i. next_player_id s + int i) [1 ..< Suc (Suc (length ?rest))]
        = (next_player_id s + 1) # map (\<lambda>i. next_player_id s + 1 + int i) [1 ..< Suc (length ?rest)]"
      by (simp add: upt_conv_Cons map_Suc_upt [symmetric] del: upt_Suc)
    with IH step_npi [of E a s] e show ?thesis by simp
  qed
qed

lemma run_npi:
  "next_player_id (run E s acts) = next_player_id s + int (length (assigned_ids E s acts))"
  by (induction acts arbitrary: s) (simp_all add: step_npi)

lemma select_planet_frame:
  assumes "select_planet E r pc x sp = Inr sp1"
  shows "clients (fst sp1) = clients (fst sp)"
    and "players (fst sp1) = players (fst sp)"
    and "readiness (fst sp1) = readiness (fst sp)"
    and "game_started (fst sp1) = game_started (fst sp)"
    and "handler_queue (fst sp1) = handler_queue (fst sp)"
    and "sender_queue (fst sp1) = sender_queue (fst sp)"
  using assms
  by (auto simp: select_planet_def Let_def split: sum.splits if_splits)

lemma select_loop_frame:
  assumes "select_loop E r pc xs sp = (sp1, e)"
  shows "clients (fst sp1) = clients (fst sp)"
    and "players (fst sp1) = players (fst sp)"
    and "readiness (fst sp1) = readiness (fst sp)"
    and "game_started (fst sp1) = game_started (fst sp)"
    and "handler_queue (fst sp1) = handler_queue (fst sp)"
    and "sender_queue (fst sp1) = sender_queue (fst sp)"
  using assms
  by (induction xs arbitrary: sp) (auto split: sum.splits dest: select_planet_frame)

lemma handle_not_lobby:
  "ce_name ev \<noteq> PStr ''ready'' \<Longrightarrow> ce_name ev \<noteq> PStr ''rendered'' \<Longrightarrow>
   handle E ev s = (if game_started s then handle_game E ev s else (s, None))"
  by (simp add: handle_def handle_lobby_def)

lemma handle_game_lobby_name:
  "ce_name ev = PStr ''ready'' \<or> ce_name ev = PStr ''rendered'' \<Longrightarrow> handle_game E ev s = (s, None)"
  by (auto simp: handle_game_def)

lemma handle_ready_name:
  "ce_name ev = PStr ''ready'' \<Longrightarrow> handle E ev s = handle_ready E ev s"
  by (auto simp: handle_def handle_lobby_def handle_game_lobby_name split: prod.splits option.splits)

lemma handle_rendered_name:
  "ce_name ev = PStr ''rendered'' \<Longrightarrow> handle E ev s = handle_rendered ev s"
  by (auto simp: handle_def handle_lobby_def handle_game_lobby_name split: prod.splits option.splits)

lemma all_rendered_simps [simp]:
  "all_rendered (notify n a s) = all_rendered s"
  "all_rendered (s\<lparr>game_started := b\<rparr>) = all_rendered s"
  by (simp_all add: all_rendered_def)

lemma handle_damage_started:
  "game_started s \<Longrightarrow> ce_name ev = PStr ''damage'' \<Longrightarrow> handle E ev s = handle_damage ev s"
  by (simp add: handle_not_lobby handle_game_def)

lemma check_game_over_frame:
  "planets (fst (check_game_over s)) = planets s"
  "heap (fst (check_game_over s)) = heap s"
  "id_pos (fst (check_game_over s)) = id_pos s"
  by (simp_all add: check_game_over_def split: prod.splits bool.splits list.splits)

lemma handle_damage_resolved:
  assumes "payload_int ev ''planet_id'' = Inr k" "payload_int ev ''unit_id'' = Inr u"
    "hp_count_of ev = Inr h" "map_of (planets s) k = Some p"
  shows "handle_damage ev s = check_game_over (apply_damage ev k u h p s)"
  using assms by (simp add: handle_damage_def cache_get_def)

lemma apply_damage_hit:
  assumes "u \<in> set (object_ids (heap s (ce_player ev)))"
  shows "planets (apply_damage ev k u h p s) = AList.update k (hit_planet (pid (heap s (ce_player ev))) h p) (planets s)"
    and "heap (apply_damage ev k u h p s) =
           (heap s)(ce_player ev := (heap s (ce_player ev))\<lparr>object_ids := remove1 u (object_ids (heap s (ce_player ev)))\<rparr>)"
  using assms by (simp_all add: apply_damage_def Let_def)

lemma apply_damage_miss:
  assumes "u \<notin> set (object_ids (heap s (ce_player ev)))"
  shows "apply_damage ev k u h p s = s"
  using assms by (simp add: apply_damage_def Let_def)

section \<open>Player ids\<close>

text \<open>
  C10. The ids given at accept time are 1, 2, 3, ... in the order of the accepts, whatever
  happens in between: the counter is \<open>0\<close> at the start, every accepted connection takes
  the next value, and nothing resets it, a game-over included. So the ids increase
  strictly over the whole life of the server, and at every moment the counter is the
  number of connections accepted so far.
\<close>

theorem player_ids_consecutive:
  "assigned_ids E (init m) acts = map int [1 ..< Suc (length (assigned_ids E (init m) acts))]
   \<and> next_player_id (run E (init m) acts) = int (length (assigned_ids E (init m) acts))"
  using assigned_ids_from [of E "init m" acts] run_npi [of E "init m" acts]
  by (simp add: init_def)

text \<open>
  On the match above: two players join, player 1 wins, the game-over empties the player
  map, and the connection accepted next gets id 3.
\<close>

theorem player_ids_consecutive_witness:
  "players (run match_env (init 8) won) = []
   \<and> assigned_ids match_env (init 8) (won @ [Accept PNone]) = [1, 2, 3]
   \<and> next_player_id (run match_env (init 8) (won @ [Accept PNone])) = 3"
proof -
  have n: "length (assigned_ids match_env (init 8) (won @ [Accept PNone])) = 3"
    by code_simp
  have p: "players (run match_env (init 8) won) = []"
    by code_simp
  show ?thesis
    using player_ids_consecutive [of match_env 8 "won @ [Accept PNone]"] n p
    by (simp add: upt_rec)
qed

section \<open>Map generation\<close>

lemma map_inits_notify [simp]:
  "map_inits (notify n a s) = map_inits s + (if n = PStr ''mapinit'' then 1 else 0)"
  by (simp add: map_inits_def)

lemma map_inits_sender_queue: "sender_queue s1 = sender_queue s \<Longrightarrow> map_inits s1 = map_inits s"
  by (simp add: map_inits_def)

lemma map_inits_simps [simp]:
  "map_inits (set_player r f s) = map_inits s"
  "map_inits (set_planet k p s) = map_inits s"
  "map_inits (game_over_reset s) = map_inits s"
  "map_inits (s\<lparr>game_started := b\<rparr>) = map_inits s"
  by (simp_all add: map_inits_def)

lemma map_inits_generate_map [simp]: "map_inits (generate_map E s) = Suc (map_inits s)"
  by (simp add: generate_map_def Let_def map_inits_def)

lemma map_inits_check_game_over: "map_inits (fst (check_game_over s)) = map_inits s"
  by (simp add: check_game_over_def split: prod.splits bool.splits list.splits)

lemma map_inits_handle_game: "map_inits (fst (handle_game E ev s)) = map_inits s"
proof -
  have sel: "ce_name ev = PStr ''select'' \<Longrightarrow> map_inits (fst (handle_select E ev s)) = map_inits s"
    by (auto simp: handle_select_def split: sum.splits prod.splits option.splits
             dest!: select_loop_frame(6) map_inits_sender_queue)
  have dmg: "ce_name ev = PStr ''damage'' \<Longrightarrow> map_inits (fst (handle_damage ev s)) = map_inits s"
    by (simp add: handle_damage_def apply_damage_def map_inits_check_game_over Let_def
             split: sum.splits)
  show ?thesis
    by (auto simp: handle_game_def handle_move_def handle_add_hp_def sel dmg split: sum.splits)
qed

lemma player_ids_frame [simp]:
  "player_ids (notify n a s) = player_ids s"
  "player_ids (set_player r (\<lambda>p. p\<lparr>ready := v\<rparr>) s) = player_ids s"
  by (simp_all add: player_ids_def)

lemma all_ready_notify [simp]: "all_ready (notify n a s) = all_ready s"
  by (simp add: all_ready_def)

lemma map_due_name: "map_due ev s \<Longrightarrow> ce_name ev = PStr ''ready''"
  by (simp add: map_due_def)

lemma handle_ready_due:
  assumes "map_due ev s"
  shows "\<exists>v. payload_get ev ''ready'' = Inr v
             \<and> handle E ev s =
                 (generate_map E (notify (ce_name ev)
                    [(KStr ''player'', PInt (pid (heap s (ce_player ev)))), (KStr ''ready'', v)]
                    (set_player (ce_player ev) (\<lambda>p. p\<lparr>ready := v\<rparr>) s)), None)"
proof -
  from assms obtain v where v: "payload_get ev ''ready'' = Inr v"
    "all_ready (set_player (ce_player ev) (\<lambda>p. p\<lparr>ready := v\<rparr>) s)" "1 < length (players s)"
    and n: "ce_name ev = PStr ''ready''"
    by (auto simp: map_due_def split: sum.splits)
  have "handle_ready E ev s =
          (generate_map E (notify (ce_name ev)
             [(KStr ''player'', PInt (pid (heap s (ce_player ev)))), (KStr ''ready'', v)]
             (set_player (ce_player ev) (\<lambda>p. p\<lparr>ready := v\<rparr>) s)), None)"
    using v by (simp add: handle_ready_def Let_def)
  with v(1) n show ?thesis by (simp add: handle_ready_name)
qed

lemma handle_ready_not_due:
  assumes "ce_name ev = PStr ''ready''" and "\<not> map_due ev s"
  shows "readiness (fst (handle E ev s)) = readiness s"
    and "planets (fst (handle E ev s)) = planets s"
    and "map_inits (fst (handle E ev s)) = map_inits s"
  using assms
  by (auto simp: handle_ready_name handle_ready_def map_due_def Let_def split: sum.splits)

text \<open>
  C4 (as amended). Handling an event broadcasts one more map-init exactly when the event
  is a ready event that is due: once the submitted flag is recorded for the sender, every
  player of the player map is ready and the map holds at least two players. Such a turn
  takes the planets from the map generator into the planet cache, sets \<open>readiness\<close> and
  ends with the broadcast of a map-init event that carries these planets. Whether
  \<open>readiness\<close> was already true plays no part: the handler never reads it. A ready event
  that is not due leaves \<open>readiness\<close> and the planets as they were.
\<close>

theorem map_generation_trigger:
  "map_inits (fst (handle E ev s)) = map_inits s + (if map_due ev s then 1 else 0)
   \<and> (map_due ev s \<longrightarrow>
        readiness (fst (handle E ev s))
        \<and> planets (fst (handle E ev s)) = map_run E (player_ids s)
        \<and> last (sender_queue (fst (handle E ev s))) =
            \<lparr>se_name = PStr ''mapinit'',
             se_payload = [(KStr ''map'', PList (map get_dict (map_run E (player_ids s))))]\<rparr>)
   \<and> (ce_name ev = PStr ''ready'' \<and> \<not> map_due ev s \<longrightarrow>
        readiness (fst (handle E ev s)) = readiness s
        \<and> planets (fst (handle E ev s)) = planets s)"
proof (cases "map_due ev s")
  case True
  from handle_ready_due [OF True, of E] obtain v where
    h: "handle E ev s =
          (generate_map E (notify (ce_name ev)
             [(KStr ''player'', PInt (pid (heap s (ce_player ev)))), (KStr ''ready'', v)]
             (set_player (ce_player ev) (\<lambda>p. p\<lparr>ready := v\<rparr>) s)), None)"
    by blast
  have q: "last (sender_queue (generate_map E s1)) =
             \<lparr>se_name = PStr ''mapinit'',
              se_payload = [(KStr ''map'', PList (map get_dict (map_run E (player_ids s1))))]\<rparr>" for s1
    by (simp add: generate_map_def Let_def)
  show ?thesis
    using True map_due_name [OF True] by (simp add: h q)
next
  case False
  show ?thesis
  proof (cases "ce_name ev = PStr ''ready''")
    case True
    with False show ?thesis by (simp add: handle_ready_not_due)
  next
    case nr: False
    show ?thesis
    proof (cases "ce_name ev = PStr ''rendered''")
      case True
      with False nr show ?thesis
        by (simp add: handle_rendered_name handle_rendered_def Let_def)
    next
      case r: False
      with False nr show ?thesis
        by (simp add: handle_not_lobby map_inits_handle_game)
    qed
  qed
qed

text \<open>
  With both players ready the map has been generated once; player 1 submitting
  \<^verbatim>\<open>ready=true\<close> again makes it two, and the turn ends with \<open>readiness\<close> true, the three
  planets of the generator in the cache and a second map-init broadcast.
\<close>

theorem map_generation_trigger_witness:
  "readiness (run match_env (init 8) all_set)
   \<and> map_inits (run match_env (init 8) all_set) = 1
   \<and> map_inits (fst (handle match_env ready_again (run match_env (init 8) all_set))) = 2
   \<and> readiness (fst (handle match_env ready_again (run match_env (init 8) all_set)))
   \<and> map (\<lambda>kp. (fst kp, owner (snd kp), units_count (snd kp)))
        (planets (fst (handle match_env ready_again (run match_env (init 8) all_set))))
       = [(1, Some 1, 10), (2, Some 2, 5), (3, None, 3)]
   \<and> se_name (last (sender_queue (fst (handle match_env ready_again (run match_env (init 8) all_set)))))
       = PStr ''mapinit''"
proof -
  let ?s = "run match_env (init 8) all_set"
  have r: "readiness ?s"
    by code_simp
  have n: "map_inits ?s = 1"
    by code_simp
  have c: "map_due ready_again ?s"
    by code_simp
  have g: "map_run match_env (player_ids ?s) =
             [(1, \<lparr>owner = Some 1, units_count = 10\<rparr>), (2, \<lparr>owner = Some 2, units_count = 5\<rparr>),
              (3, \<lparr>owner = None, units_count = 3\<rparr>)]"
    by (simp add: match_env_def)
  show ?thesis
    using map_generation_trigger [of match_env ready_again ?s] r n c by (simp add: g)
qed

text \<open>
  C4 as stated fails: after the ready events of both players have generated the map and
  set \<open>readiness\<close>, a further ready event of player 1 generates it a second time, with
  both players still in the player map (no game-over in between).
\<close>

theorem map_generated_twice:
  "readiness (run match_env (init 8) all_set)
   \<and> map_inits (run match_env (init 8) all_set) = 1
   \<and> map_inits (run match_env (init 8) (all_set @ [ready_data 0, Step])) = 2
   \<and> length (players (run match_env (init 8) (all_set @ [ready_data 0, Step]))) = 2"
  by code_simp

section \<open>Starting the game\<close>

text \<open>
  C5 (as amended). \<open>game_started\<close> goes from false to true only in the turn of a rendered
  event, and then every player of the player map has its \<open>rendered\<close> flag set. The turn
  leaves \<open>readiness\<close> as it was and does not read it.
\<close>

theorem game_started_only_by_rendered:
  assumes "\<not> game_started s" and "game_started (fst (handle E ev s))"
  shows "ce_name ev = PStr ''rendered''
         \<and> all_rendered (fst (handle E ev s))
         \<and> readiness (fst (handle E ev s)) = readiness s"
proof (cases "ce_name ev = PStr ''ready''")
  case True
  with assms show ?thesis
    by (simp add: handle_ready_name handle_ready_def Let_def split: sum.splits if_splits)
next
  case False
  show ?thesis
  proof (cases "ce_name ev = PStr ''rendered''")
    case True
    with assms show ?thesis
      by (simp add: handle_rendered_name handle_rendered_def Let_def split: if_splits)
  next
    case r: False
    with False assms show ?thesis
      by (simp add: handle_not_lobby)
  qed
qed

theorem game_started_only_by_rendered_witness:
  "\<not> game_started alone
   \<and> game_started (fst (handle match_env lone_rendered alone))
   \<and> ce_name lone_rendered = PStr ''rendered''
   \<and> all_rendered (fst (handle match_env lone_rendered alone))
   \<and> \<not> readiness (fst (handle match_env lone_rendered alone))"
proof -
  have a: "\<not> game_started alone"
    by code_simp
  have b: "game_started (fst (handle match_env lone_rendered alone))"
    by code_simp
  have r: "\<not> readiness alone"
    by code_simp
  show ?thesis
    using game_started_only_by_rendered [OF a b] a b r by simp
qed

text \<open>
  C5 as stated fails: one player connects and sends rendered, no map has been generated,
  and the game is started with \<open>readiness\<close> still false.
\<close>

theorem game_started_without_readiness:
  "game_started (run match_env (init 8) [Accept PNone, rendered_data 0, Step])
   \<and> \<not> readiness (run match_env (init 8) [Accept PNone, rendered_data 0, Step])"
  by code_simp

section \<open>The winner of an empty list\<close>

text \<open>
  C3. A state can be reached in which the handler's next event is a damage event, and
  handling it ends in the game-over branch with no active player: the scan of the two
  players of the player map runs to its end with an empty list, and
  \<^verbatim>\<open>active_players[0]\<close> raises \<^verbatim>\<open>IndexError\<close>. In the match above player 1 spends
  its only unit on the only planet of player 2.
\<close>

theorem game_over_index_error_reachable:
  "\<exists>E m acts ev q s1.
     handler_queue (run E (init m) acts) = ev # q
     \<and> ce_name ev = PStr ''damage''
     \<and> handler_turn E (run E (init m) acts) = (s1, Some IndexError)
     \<and> length (players s1) = 2
     \<and> scan_players s1 (players s1) [] = ([], False)"
proof -
  let ?s = "run match_env (init 8) crashing"
  have q: "handler_queue ?s = [\<lparr>ce_name = PStr ''damage'', ce_player = 0,
             ce_fields = [(KStr ''planet_id'', PInt 2), (KStr ''unit_id'', PInt 100), (KStr ''hp_count'', PInt 7)]\<rparr>]"
    by code_simp
  have e: "snd (handler_turn match_env ?s) = Some IndexError"
    by code_simp
  have n: "length (players (fst (handler_turn match_env ?s))) = 2"
    by code_simp
  have a: "scan_players (fst (handler_turn match_env ?s)) (players (fst (handler_turn match_env ?s))) [] = ([], False)"
    by code_simp
  from q e n a show ?thesis
    by (metis client_event.select_convs(1) prod.collapse)
qed

section \<open>Damage\<close>

text \<open>
  C1 (as amended). While the game is started, a damage event whose fields resolve (planet
  id, unit id, and damage amount: \<^verbatim>\<open>hp_count\<close>, or 1 without it), whose unit is in the
  sender's unit list and whose planet is not owned by the sender, with a damage amount
  above the planet's unit count, leaves the planet owned by the sender with the absolute
  value of the deficit as its unit count, and one occurrence of the unit id is removed
  from the sender's list (so the id is gone when the list had no duplicates). This holds
  whatever the game-over check then does.
\<close>

theorem damage_captures_planet:
  assumes "game_started s" and "ce_name ev = PStr ''damage''"
    and "payload_int ev ''planet_id'' = Inr k"
    and "payload_int ev ''unit_id'' = Inr u"
    and "hp_count_of ev = Inr h"
    and "map_of (planets s) k = Some p"
    and "u \<in> set (object_ids (heap s (ce_player ev)))"
    and "owner p \<noteq> Some (pid (heap s (ce_player ev)))"
    and "units_count p < h"
  shows "map_of (planets (fst (handle E ev s))) k =
           Some (p\<lparr>owner := Some (pid (heap s (ce_player ev))), units_count := \<bar>h - units_count p\<bar>\<rparr>)
         \<and> object_ids (heap (fst (handle E ev s)) (ce_player ev)) =
             remove1 u (object_ids (heap s (ce_player ev)))
         \<and> (distinct (object_ids (heap s (ce_player ev))) \<longrightarrow>
              u \<notin> set (object_ids (heap (fst (handle E ev s)) (ce_player ev))))"
proof -
  let ?s1 = "apply_damage ev k u h p s"
  have h: "handle E ev s = check_game_over ?s1"
    using assms by (simp add: handle_damage_started handle_damage_resolved)
  have hit: "hit_planet (pid (heap s (ce_player ev))) h p =
               p\<lparr>owner := Some (pid (heap s (ce_player ev))), units_count := \<bar>h - units_count p\<bar>\<rparr>"
    using assms(8,9) by (simp add: hit_planet_def Let_def)
  have pl: "map_of (planets ?s1) k =
              Some (p\<lparr>owner := Some (pid (heap s (ce_player ev))), units_count := \<bar>h - units_count p\<bar>\<rparr>)"
    using assms(7) hit by (simp add: apply_damage_hit update_conv')
  have ids: "object_ids (heap ?s1 (ce_player ev)) = remove1 u (object_ids (heap s (ce_player ev)))"
    using assms(7) by (simp add: apply_damage_hit)
  show ?thesis
    using pl ids by (simp add: h check_game_over_frame)
qed

text \<open>
  The example of the spec: a damage of 7 from player 1 on the planet of player 2, which
  holds 5 units.
\<close>

theorem damage_captures_planet_witness:
  "game_started armed
   \<and> map_of (planets armed) 2 = Some \<lparr>owner = Some 2, units_count = 5\<rparr>
   \<and> object_ids (heap armed 0) = [100, 101, 102, 103, 104]
   \<and> map_of (planets (fst (handle match_env first_hit armed))) 2 = Some \<lparr>owner = Some 1, units_count = 2\<rparr>
   \<and> object_ids (heap (fst (handle match_env first_hit armed)) 0) = [101, 102, 103, 104]"
proof -
  have g: "game_started armed"
    by code_simp
  have n: "ce_name first_hit = PStr ''damage''"
    by code_simp
  have k: "payload_int first_hit ''planet_id'' = Inr 2"
    by code_simp
  have u: "payload_int first_hit ''unit_id'' = Inr 100"
    by code_simp
  have h: "hp_count_of first_hit = Inr 7"
    by code_simp
  have p: "map_of (planets armed) 2 = Some \<lparr>owner = Some 2, units_count = 5\<rparr>"
    by code_simp
  have ids: "object_ids (heap armed 0) = [100, 101, 102, 103, 104]"
    by code_simp
  have me: "pid (heap armed 0) = 1"
    by code_simp
  have r: "ce_player first_hit = 0"
    by (simp add: first_hit_def)
  have m: "100 \<in> set (object_ids (heap armed (ce_player first_hit)))"
    by (simp add: r ids)
  have f: "owner \<lparr>owner = Some 2, units_count = 5\<rparr> \<noteq> Some (pid (heap armed (ce_player first_hit)))"
    by (simp add: r me)
  have d: "units_count \<lparr>owner = Some 2, units_count = 5\<rparr> < (7::int)"
    by simp
  show ?thesis
    using damage_captures_planet [OF g n k u h p m f d, of match_env] g p ids
    by (simp add: r me)
qed

text \<open>
  C1 as stated fails outside a started game. Player 1 sends two attacks back to back; the
  first one takes the neutral planet and ends the game, and the second one, from its unit
  101 with a damage of 7 on the planet of player 2 that holds 5 units, is handled with
  \<open>game_started\<close> false: the planet stays with player 2 and the unit stays in the list.
\<close>

theorem damage_ignored_before_start:
  "handler_queue (run match_env (init 8) late) = [late_damage]
   \<and> \<not> game_started (run match_env (init 8) late)
   \<and> pid (heap (run match_env (init 8) late) 0) = 1
   \<and> 101 \<in> set (object_ids (heap (run match_env (init 8) late) 0))
   \<and> map_of (planets (run match_env (init 8) late)) 2 = Some \<lparr>owner = Some 2, units_count = 5\<rparr>
   \<and> payload_int late_damage ''planet_id'' = Inr 2
   \<and> payload_int late_damage ''unit_id'' = Inr 101
   \<and> hp_count_of late_damage = Inr 7
   \<and> map_of (planets (fst (handle match_env late_damage (run match_env (init 8) late)))) 2
       = Some \<lparr>owner = Some 2, units_count = 5\<rparr>
   \<and> 101 \<in> set (object_ids (heap (fst (handle match_env late_damage (run match_env (init 8) late))) 0))"
  by code_simp

section \<open>Damage without a damage amount\<close>

lemma payload_lookup:
  "k \<noteq> ''player'' \<Longrightarrow> map_of (payload ev) (KStr k) = map_of (ce_fields ev) (KStr k)"
  by (simp add: payload_def update_conv')

lemma payload_with_hp_count:
  assumes "map_of (payload ev) (KStr ''hp_count'') = None"
  shows "map_of (payload (ev\<lparr>ce_fields := ce_fields ev @ [(KStr ''hp_count'', PInt 1)]\<rparr>)) (KStr k) =
           (if k = ''hp_count'' then Some (PInt 1) else map_of (payload ev) (KStr k))"
proof -
  have "map_of (ce_fields ev) (KStr ''hp_count'') = None"
    using assms by (simp add: payload_lookup)
  then show ?thesis
    by (auto simp: payload_def update_conv' map_add_def split: option.splits)
qed

lemma handle_damage_default:
  assumes "map_of (payload ev) (KStr ''hp_count'') = None"
  shows "handle_damage (ev\<lparr>ce_fields := ce_fields ev @ [(KStr ''hp_count'', PInt 1)]\<rparr>) s = handle_damage ev s"
proof -
  let ?ev = "ev\<lparr>ce_fields := ce_fields ev @ [(KStr ''hp_count'', PInt 1)]\<rparr>"
  have a: "payload_int ?ev ''planet_id'' = payload_int ev ''planet_id''"
    and b: "payload_int ?ev ''unit_id'' = payload_int ev ''unit_id''"
    and c: "hp_count_of ?ev = hp_count_of ev"
    using assms
    by (simp_all add: payload_int_def payload_get_def hp_count_of_def payload_with_hp_count)
  have d: "apply_damage ?ev k u h p s = apply_damage ev k u h p s" for k u h p
    by (simp add: apply_damage_def Let_def)
  show ?thesis
    unfolding handle_damage_def a b c d ..
qed

text \<open>
  C9 (as amended). A damage event without an \<^verbatim>\<open>hp_count\<close> field is handled exactly as
  the same event with \<^verbatim>\<open>hp_count\<close> 1: same state, same broadcasts, same outcome. So, in
  a started game and with a unit of the sender, the planet's unit count goes up by 1 when
  the sender owns it, down by 1 when it does not and the count is at least 1, and a
  planet of another owner whose count is 0 (or less) is taken over, its count becoming
  1 minus the old one.
\<close>

theorem damage_without_hp_count:
  assumes "ce_name ev = PStr ''damage''"
    and "map_of (payload ev) (KStr ''hp_count'') = None"
  shows "handle E ev s = handle E (ev\<lparr>ce_fields := ce_fields ev @ [(KStr ''hp_count'', PInt 1)]\<rparr>) s
         \<and> (game_started s \<and> payload_int ev ''planet_id'' = Inr k \<and> payload_int ev ''unit_id'' = Inr u
              \<and> map_of (planets s) k = Some p \<and> u \<in> set (object_ids (heap s (ce_player ev))) \<longrightarrow>
            map_of (planets (fst (handle E ev s))) k =
              Some (if owner p = Some (pid (heap s (ce_player ev))) then p\<lparr>units_count := units_count p + 1\<rparr>
                    else if 1 \<le> units_count p then p\<lparr>units_count := units_count p - 1\<rparr>
                    else p\<lparr>owner := Some (pid (heap s (ce_player ev))), units_count := 1 - units_count p\<rparr>))"
proof
  show "handle E ev s = handle E (ev\<lparr>ce_fields := ce_fields ev @ [(KStr ''hp_count'', PInt 1)]\<rparr>) s"
    using assms by (simp add: handle_not_lobby handle_game_def handle_damage_default)
next
  have h: "hp_count_of ev = Inr 1"
    using assms(2) by (simp add: hp_count_of_def)
  show "game_started s \<and> payload_int ev ''planet_id'' = Inr k \<and> payload_int ev ''unit_id'' = Inr u
          \<and> map_of (planets s) k = Some p \<and> u \<in> set (object_ids (heap s (ce_player ev))) \<longrightarrow>
        map_of (planets (fst (handle E ev s))) k =
          Some (if owner p = Some (pid (heap s (ce_player ev))) then p\<lparr>units_count := units_count p + 1\<rparr>
                else if 1 \<le> units_count p then p\<lparr>units_count := units_count p - 1\<rparr>
                else p\<lparr>owner := Some (pid (heap s (ce_player ev))), units_count := 1 - units_count p\<rparr>)"
  proof
    assume a: "game_started s \<and> payload_int ev ''planet_id'' = Inr k \<and> payload_int ev ''unit_id'' = Inr u
          \<and> map_of (planets s) k = Some p \<and> u \<in> set (object_ids (heap s (ce_player ev)))"
    then have "handle E ev s = check_game_over (apply_damage ev k u 1 p s)"
      using assms(1) h by (simp add: handle_damage_started handle_damage_resolved)
    moreover have "map_of (planets (apply_damage ev k u 1 p s)) k = Some (hit_planet (pid (heap s (ce_player ev))) 1 p)"
      using a by (simp add: apply_damage_hit update_conv')
    ultimately show "map_of (planets (fst (handle E ev s))) k =
          Some (if owner p = Some (pid (heap s (ce_player ev))) then p\<lparr>units_count := units_count p + 1\<rparr>
                else if 1 \<le> units_count p then p\<lparr>units_count := units_count p - 1\<rparr>
                else p\<lparr>owner := Some (pid (heap s (ce_player ev))), units_count := 1 - units_count p\<rparr>)"
      by (auto simp: check_game_over_frame hit_planet_def Let_def)
  qed
qed

theorem damage_without_hp_count_witness:
  "handle match_env (bare_hit 100) armed =
     handle match_env ((bare_hit 100)\<lparr>ce_fields := ce_fields (bare_hit 100) @ [(KStr ''hp_count'', PInt 1)]\<rparr>) armed
   \<and> map_of (planets armed) 2 = Some \<lparr>owner = Some 2, units_count = 5\<rparr>
   \<and> map_of (planets (fst (handle match_env (bare_hit 100) armed))) 2 = Some \<lparr>owner = Some 2, units_count = 4\<rparr>"
proof -
  have n: "ce_name (bare_hit 100) = PStr ''damage''"
    by code_simp
  have m: "map_of (payload (bare_hit 100)) (KStr ''hp_count'') = None"
    by code_simp
  have g: "game_started armed \<and> payload_int (bare_hit 100) ''planet_id'' = Inr 2
           \<and> payload_int (bare_hit 100) ''unit_id'' = Inr 100
           \<and> map_of (planets armed) 2 = Some \<lparr>owner = Some 2, units_count = 5\<rparr>
           \<and> 100 \<in> set (object_ids (heap armed (ce_player (bare_hit 100))))"
    by code_simp
  have me: "pid (heap armed (ce_player (bare_hit 100))) = 1"
    by code_simp
  note t = damage_without_hp_count [OF n m, of match_env armed 2 100 "\<lparr>owner = Some 2, units_count = 5\<rparr>"]
  have v: "map_of (planets (fst (handle match_env (bare_hit 100) armed))) 2 = Some \<lparr>owner = Some 2, units_count = 4\<rparr>"
    using t [THEN conjunct2] g me by simp
  show ?thesis
    using t [THEN conjunct1] g v by (intro conjI) simp_all
qed

text \<open>
  C9 as stated fails on the clause "down otherwise": a planet of player 2 that holds no
  unit, hit by player 1 without \<^verbatim>\<open>hp_count\<close>, ends with one unit, owned by player 1.
\<close>

theorem damage_without_hp_count_captures:
  "game_started drained
   \<and> map_of (payload (bare_hit 105)) (KStr ''hp_count'') = None
   \<and> 105 \<in> set (object_ids (heap drained 0))
   \<and> pid (heap drained 0) = 1
   \<and> map_of (planets drained) 2 = Some \<lparr>owner = Some 2, units_count = 0\<rparr>
   \<and> map_of (planets (fst (handle match_env (bare_hit 105) drained))) 2 = Some \<lparr>owner = Some 1, units_count = 1\<rparr>"
  by code_simp

section \<open>Game over\<close>

text \<open>The scan of the source computes the qualifying players, up to the second one.\<close>

lemma scan_players_spec:
  "length act < 2 \<Longrightarrow>
   scan_players s crs act =
     (let all = act @ map (\<lambda>cr. pid (heap s (snd cr))) (filter (\<lambda>cr. is_active s (snd cr)) crs)
      in if 2 \<le> length all then (take 2 all, True) else (all, False))"
proof (induction crs arbitrary: act)
  case Nil
  then show ?case by simp
next
  case (Cons cr crs)
  show ?case
  proof (cases "is_active s (snd cr)")
    case False
    with Cons show ?thesis by (simp add: Let_def)
  next
    case True
    show ?thesis
    proof (cases "length act = 1")
      case True
      with \<open>is_active s (snd cr)\<close> show ?thesis by (simp add: Let_def)
    next
      case False
      with Cons.prems have e: "act = []" by (cases act) auto
      have "length [pid (heap s (snd cr))] < 2" by simp
      from Cons.IH [OF this] e \<open>is_active s (snd cr)\<close> show ?thesis by (simp add: Let_def)
    qed
  qed
qed

lemma check_game_over_many:
  "2 \<le> length (active_ids s) \<Longrightarrow> check_game_over s = (s, None)"
  by (simp add: check_game_over_def scan_players_spec active_ids_def Let_def)

lemma check_game_over_one:
  "active_ids s = [w] \<Longrightarrow>
   check_game_over s = (game_over_reset (notify (PStr ''gameover'') [(KStr ''winner'', PInt w)] s), None)"
  by (simp add: check_game_over_def scan_players_spec active_ids_def Let_def)

lemma check_game_over_none:
  "active_ids s = [] \<Longrightarrow> check_game_over s = (s, Some IndexError)"
  by (simp add: check_game_over_def scan_players_spec active_ids_def Let_def)

text \<open>
  C2 (as amended). In a started game, after a damage event whose fields resolve has been
  applied (to the planet and the sender, or to nothing when the unit is not the
  sender's), the handler checks for game-over: with two or more qualifying players
  nothing more happens; with exactly one, a game-over event naming that player is
  broadcast and then \<open>readiness\<close> and \<open>game_started\<close> are false and the player map and
  the connection list are empty. (With no qualifying player the turn raises, see C3.)
\<close>

theorem game_over_after_damage:
  assumes "game_started s" and "ce_name ev = PStr ''damage''"
    and "payload_int ev ''planet_id'' = Inr k"
    and "payload_int ev ''unit_id'' = Inr u"
    and "hp_count_of ev = Inr h"
    and "map_of (planets s) k = Some p"
  shows "(2 \<le> length (active_ids (apply_damage ev k u h p s)) \<longrightarrow>
            handle E ev s = (apply_damage ev k u h p s, None))
         \<and> (\<forall>w. active_ids (apply_damage ev k u h p s) = [w] \<longrightarrow>
              handle E ev s =
                (game_over_reset (notify (PStr ''gameover'') [(KStr ''winner'', PInt w)]
                   (apply_damage ev k u h p s)), None)
              \<and> \<not> readiness (fst (handle E ev s)) \<and> \<not> game_started (fst (handle E ev s))
              \<and> players (fst (handle E ev s)) = [] \<and> clients (fst (handle E ev s)) = [])"
proof -
  have "handle E ev s = check_game_over (apply_damage ev k u h p s)"
    using assms by (simp add: handle_damage_started handle_damage_resolved)
  then show ?thesis
    by (auto simp: check_game_over_many check_game_over_one)
qed

theorem game_over_after_damage_witness:
  "game_started armed
   \<and> active_ids (apply_damage first_hit 2 100 7 \<lparr>owner = Some 2, units_count = 5\<rparr> armed) = [1]
   \<and> last (sender_queue (fst (handle match_env first_hit armed))) =
       \<lparr>se_name = PStr ''gameover'', se_payload = [(KStr ''winner'', PInt 1)]\<rparr>
   \<and> \<not> readiness (fst (handle match_env first_hit armed))
   \<and> \<not> game_started (fst (handle match_env first_hit armed))
   \<and> players (fst (handle match_env first_hit armed)) = []
   \<and> clients (fst (handle match_env first_hit armed)) = []"
proof -
  have g: "game_started armed"
    by code_simp
  have n: "ce_name first_hit = PStr ''damage''"
    by code_simp
  have k: "payload_int first_hit ''planet_id'' = Inr 2"
    by code_simp
  have u: "payload_int first_hit ''unit_id'' = Inr 100"
    by code_simp
  have h: "hp_count_of first_hit = Inr 7"
    by code_simp
  have p: "map_of (planets armed) 2 = Some \<lparr>owner = Some 2, units_count = 5\<rparr>"
    by code_simp
  have a: "active_ids (apply_damage first_hit 2 100 7 \<lparr>owner = Some 2, units_count = 5\<rparr> armed) = [1]"
    by code_simp
  show ?thesis
    using game_over_after_damage [OF g n k u h p, of match_env] g a
    by simp
qed

text \<open>
  C2 as stated fails before the game is started: with two players connected and no
  qualifying player, a damage event is dropped without a game-over check, the player map
  keeps both players and nothing is broadcast.
\<close>

theorem no_game_over_before_start:
  "length (players (run match_env (init 8) lobby)) = 2
   \<and> active_ids (run match_env (init 8) lobby) = []
   \<and> handle match_env first_hit (run match_env (init 8) lobby) = (run match_env (init 8) lobby, None)"
proof -
  have a: "length (players (run match_env (init 8) lobby)) = 2"
    by code_simp
  have b: "active_ids (run match_env (init 8) lobby) = []"
    by code_simp
  have c: "\<not> game_started (run match_env (init 8) lobby)"
    by code_simp
  have d: "ce_name first_hit \<noteq> PStr ''ready'' \<and> ce_name first_hit \<noteq> PStr ''rendered''"
    by code_simp
  from a b c d show ?thesis
    by (simp add: handle_not_lobby)
qed

section \<open>Unit counts\<close>

text \<open>
  What a launch takes from a planet never exceeds what the planet holds, when the
  percentage is at most 100.
\<close>

lemma round_half_even_le:
  assumes "0 \<le> n" and "pc \<le> 100"
  shows "round_half_even (n * pc) 100 \<le> n"
proof -
  have m: "n * pc \<le> n * 100"
    using assms by (simp add: mult_left_mono)
  define m where "m = n * pc"
  have le: "m \<le> n * 100" using m by (simp add: m_def)
  have d: "m div 100 \<le> n" using le by linarith
  have r: "m mod 100 < 100" "0 \<le> m mod 100" by simp_all
  have e: "m = 100 * (m div 100) + m mod 100" by simp
  have z: "m div 100 = n \<Longrightarrow> m mod 100 = 0" using le e r by linarith
  have "round_half_even m 100 \<le> n"
    using d z r unfolding round_half_even_def Let_def
    by (cases "m div 100 = n") auto
  then show ?thesis by (simp add: m_def)
qed

lemma select_planet_nonneg:
  assumes "select_planet E r pv x sp = Inr sp1"
    and "\<And>pc. py_int pv = Inr pc \<Longrightarrow> pc \<le> 100"
    and "map_of (planets (fst sp)) k = Some p" and "0 \<le> units_count p"
  shows "\<exists>p1. map_of (planets (fst sp1)) k = Some p1 \<and> 0 \<le> units_count p1"
  using assms
  by (auto simp: select_planet_def Let_def cache_get_def update_conv' round_half_even_le py_round_ratio_def
           split: sum.splits if_splits option.splits)

lemma select_loop_nonneg:
  assumes "select_loop E r pv xs sp = (sp1, e)"
    and "\<And>pc. py_int pv = Inr pc \<Longrightarrow> pc \<le> 100"
    and "map_of (planets (fst sp)) k = Some p" and "0 \<le> units_count p"
  shows "\<exists>p1. map_of (planets (fst sp1)) k = Some p1 \<and> 0 \<le> units_count p1"
  using assms
proof (induction xs arbitrary: sp p)
  case Nil
  then show ?case by auto
next
  case (Cons x xs)
  show ?case
  proof (cases "select_planet E r pv x sp")
    case (Inl err)
    with Cons.prems show ?thesis by auto
  next
    case (Inr sp2)
    from select_planet_nonneg [OF Inr Cons.prems(2) Cons.prems(3) Cons.prems(4)]
    obtain p2 where p2: "map_of (planets (fst sp2)) k = Some p2" "0 \<le> units_count p2"
      by auto
    from Cons.prems(1) Inr have "select_loop E r pv xs sp2 = (sp1, e)" by simp
    from Cons.IH [OF this Cons.prems(2) p2] show ?thesis .
  qed
qed

lemma hit_planet_nonneg:
  "0 \<le> units_count p \<Longrightarrow> 0 \<le> h \<Longrightarrow> 0 \<le> units_count (hit_planet i h p)"
  by (simp add: hit_planet_def Let_def)

lemma hp_count_of_payload_int:
  "hp_count_of ev = Inr h \<Longrightarrow> h = 1 \<or> payload_int ev ''hp_count'' = Inr h"
  by (auto simp: hp_count_of_def payload_int_def payload_get_def split: option.splits)

lemma handle_add_hp_nonneg:
  assumes "map_of (planets s) k = Some p" "0 \<le> units_count p"
    and "map_of (planets (fst (handle_add_hp ev s))) k = Some p1"
    and hh: "\<And>h. payload_int ev ''hp_count'' = Inr h \<Longrightarrow> 0 \<le> h"
  shows "0 \<le> units_count p1"
proof (cases "\<exists>j h q. payload_int ev ''planet_id'' = Inr j \<and> payload_int ev ''hp_count'' = Inr h
                  \<and> map_of (planets s) j = Some q \<and> owner q = Some (pid (heap s (ce_player ev)))")
  case False
  then have "planets (fst (handle_add_hp ev s)) = planets s"
    by (auto simp: handle_add_hp_def cache_get_def split: sum.splits option.splits)
  with assms show ?thesis by simp
next
  case True
  then obtain j h q where r: "payload_int ev ''planet_id'' = Inr j" "payload_int ev ''hp_count'' = Inr h"
    "map_of (planets s) j = Some q" "owner q = Some (pid (heap s (ce_player ev)))" by blast
  have pl: "planets (fst (handle_add_hp ev s)) = AList.update j (q\<lparr>units_count := units_count q + h\<rparr>) (planets s)"
    using r by (simp add: handle_add_hp_def cache_get_def)
  have "0 \<le> h" using hh r(2) by blast
  with assms(1-3) r(3) show ?thesis
    by (cases "k = j") (auto simp: pl update_conv')
qed

lemma handle_select_nonneg:
  assumes "map_of (planets s) k = Some p" "0 \<le> units_count p"
    and "map_of (planets (fst (handle_select E ev s))) k = Some p1"
    and pct: "\<And>pc. payload_int ev ''percentage'' = Inr pc \<Longrightarrow> pc \<le> 100"
  shows "0 \<le> units_count p1"
proof (cases "\<exists>f pv xs. payload_get ev ''from'' = Inr f \<and> payload_get ev ''percentage'' = Inr pv
                 \<and> py_iter f = Inr xs")
  case False
  then have "planets (fst (handle_select E ev s)) = planets s"
    by (auto simp: handle_select_def split: sum.splits)
  with assms show ?thesis by simp
next
  case True
  then obtain f pv xs where r: "payload_get ev ''from'' = Inr f"
    "payload_get ev ''percentage'' = Inr pv" "py_iter f = Inr xs" by blast
  obtain sp e where l: "select_loop E (ce_player ev) pv xs (s, []) = (sp, e)"
    by (cases "select_loop E (ce_player ev) pv xs (s, [])") auto
  have pl: "planets (fst (handle_select E ev s)) = planets (fst sp)"
    using r l by (simp add: handle_select_def split: option.splits)
  have b: "\<And>pc. py_int pv = Inr pc \<Longrightarrow> pc \<le> 100"
    using pct r(2) by (simp add: payload_int_def)
  have "map_of (planets (fst (s, []::pydict))) k = Some p"
    using assms(1) by simp
  from select_loop_nonneg [OF l b this assms(2)]
  obtain p2 where "map_of (planets (fst sp)) k = Some p2" "0 \<le> units_count p2" by auto
  with assms(3) pl show ?thesis by simp
qed

lemma handle_damage_nonneg:
  assumes "map_of (planets s) k = Some p" "0 \<le> units_count p"
    and "map_of (planets (fst (handle_damage ev s))) k = Some p1"
    and hh: "\<And>h. payload_int ev ''hp_count'' = Inr h \<Longrightarrow> 0 \<le> h"
  shows "0 \<le> units_count p1"
proof (cases "\<exists>j u h q. payload_int ev ''planet_id'' = Inr j \<and> payload_int ev ''unit_id'' = Inr u
                 \<and> hp_count_of ev = Inr h \<and> map_of (planets s) j = Some q")
  case False
  then have "planets (fst (handle_damage ev s)) = planets s"
    by (auto simp: handle_damage_def cache_get_def split: sum.splits option.splits)
  with assms show ?thesis by simp
next
  case True
  then obtain j u h q where r: "payload_int ev ''planet_id'' = Inr j"
    "payload_int ev ''unit_id'' = Inr u" "hp_count_of ev = Inr h" "map_of (planets s) j = Some q"
    by blast
  have h0: "0 \<le> h"
    using hp_count_of_payload_int [OF r(3)] hh by auto
  have pl: "planets (fst (handle_damage ev s)) = planets (apply_damage ev j u h q s)"
    using r by (simp add: handle_damage_resolved check_game_over_frame)
  show ?thesis
  proof (cases "u \<in> set (object_ids (heap s (ce_player ev)))")
    case False
    with assms(1-3) pl show ?thesis by (simp add: apply_damage_miss)
  next
    case True
    then have pl2: "planets (fst (handle_damage ev s)) =
                 AList.update j (hit_planet (pid (heap s (ce_player ev))) h q) (planets s)"
      using pl by (simp add: apply_damage_hit)
    show ?thesis
    proof (cases "k = j")
      case True
      with assms(1-3) r(4) h0 pl2 show ?thesis
        by (auto simp: update_conv' hit_planet_nonneg)
    next
      case False
      with assms(1-3) pl2 show ?thesis by (simp add: update_conv')
    qed
  qed
qed

lemma handle_ready_nonneg:
  assumes "map_of (planets s) k = Some p" "0 \<le> units_count p"
    and "map_of (planets (fst (handle_ready E ev s))) k = Some p1"
    and gen: "\<And>ids j q. (j, q) \<in> set (map_run E ids) \<Longrightarrow> 0 \<le> units_count q"
  shows "0 \<le> units_count p1"
proof -
  have "planets (fst (handle_ready E ev s)) = planets s \<or>
        (\<exists>ids. planets (fst (handle_ready E ev s)) = map_run E ids)"
    by (auto simp: handle_ready_def Let_def split: sum.splits)
  then show ?thesis
  proof
    assume "planets (fst (handle_ready E ev s)) = planets s"
    with assms(1-3) show ?thesis by simp
  next
    assume "\<exists>ids. planets (fst (handle_ready E ev s)) = map_run E ids"
    then obtain ids where "planets (fst (handle_ready E ev s)) = map_run E ids" ..
    with assms(3) have "(k, p1) \<in> set (map_run E ids)" by (simp add: map_of_SomeD)
    then show ?thesis by (rule gen)
  qed
qed

text \<open>
  C6 (as amended). A planet whose unit count is not negative before an event is handled
  has a count that is not negative after it, provided the numbers of the event are in
  range: the percentage of a select event, when it is a number, is at most 100; the
  \<^verbatim>\<open>hp_count\<close> of an add_hp or damage event, when it is a number, is not negative;
  the map generator produces planets without negative counts; and the turn stays inside
  the model, that is every product of a unit count and the percentage that it rounds is
  below \<open>2 ^ 53\<close> in absolute value, where the double-precision quotient rounds like the
  exact one. (A negative count inside the damage computation is replaced by its absolute
  value before the event ends.)
\<close>

theorem units_count_stays_nonnegative:
  assumes before: "map_of (planets s) k = Some p" "0 \<le> units_count p"
    and after: "map_of (planets (fst (handle E ev s))) k = Some p1"
    and pct: "\<And>pc. ce_name ev = PStr ''select'' \<Longrightarrow> payload_int ev ''percentage'' = Inr pc \<Longrightarrow> pc \<le> 100"
    and hp: "\<And>h. ce_name ev = PStr ''add_hp'' \<or> ce_name ev = PStr ''damage'' \<Longrightarrow>
                 payload_int ev ''hp_count'' = Inr h \<Longrightarrow> 0 \<le> h"
    and gen: "\<And>ids j q. (j, q) \<in> set (map_run E ids) \<Longrightarrow> 0 \<le> units_count q"
    and inside: "snd (handle E ev s) \<noteq> Some OutsideModel"
  shows "0 \<le> units_count p1"
proof -
  consider (ready) "ce_name ev = PStr ''ready''" | (rendered) "ce_name ev = PStr ''rendered''"
    | (idle) "ce_name ev \<noteq> PStr ''ready''" "ce_name ev \<noteq> PStr ''rendered''" "\<not> game_started s"
    | (game) "ce_name ev \<noteq> PStr ''ready''" "ce_name ev \<noteq> PStr ''rendered''" "game_started s"
    by blast
  then show ?thesis
  proof cases
    case ready
    with after have "map_of (planets (fst (handle_ready E ev s))) k = Some p1"
      by (simp add: handle_ready_name)
    from handle_ready_nonneg [OF before this gen] show ?thesis .
  next
    case rendered
    then have "planets (fst (handle E ev s)) = planets s"
      by (simp add: handle_rendered_name handle_rendered_def Let_def)
    with before after show ?thesis by simp
  next
    case idle
    then have "handle E ev s = (s, None)" by (simp add: handle_not_lobby)
    with before after show ?thesis by simp
  next
    case game
    then have h: "handle E ev s = handle_game E ev s" by (simp add: handle_not_lobby)
    consider (move) "ce_name ev = PStr ''move''" | (select) "ce_name ev = PStr ''select''"
      | (add_hp) "ce_name ev = PStr ''add_hp''" | (damage) "ce_name ev = PStr ''damage''"
      | (other) "ce_name ev \<noteq> PStr ''move''" "ce_name ev \<noteq> PStr ''select''"
                "ce_name ev \<noteq> PStr ''add_hp''" "ce_name ev \<noteq> PStr ''damage''"
      by blast
    then show ?thesis
    proof cases
      case move
      then have "planets (fst (handle E ev s)) = planets s"
        by (simp add: h handle_game_def handle_move_def split: sum.splits)
      with before after show ?thesis by simp
    next
      case select
      with after h have a: "map_of (planets (fst (handle_select E ev s))) k = Some p1"
        by (simp add: handle_game_def)
      from handle_select_nonneg [OF before a pct [OF select]] show ?thesis .
    next
      case add_hp
      with after h have a: "map_of (planets (fst (handle_add_hp ev s))) k = Some p1"
        by (simp add: handle_game_def)
      have hh: "\<And>h. payload_int ev ''hp_count'' = Inr h \<Longrightarrow> 0 \<le> h"
        using hp add_hp by blast
      from handle_add_hp_nonneg [OF before a hh] show ?thesis .
    next
      case damage
      with after h have a: "map_of (planets (fst (handle_damage ev s))) k = Some p1"
        by (simp add: handle_game_def)
      have hh: "\<And>h. payload_int ev ''hp_count'' = Inr h \<Longrightarrow> 0 \<le> h"
        using hp damage by blast
      from handle_damage_nonneg [OF before a hh] show ?thesis .
    next
      case other
      then have "handle E ev s = (s, None)" by (simp add: h handle_game_def)
      with before after show ?thesis by simp
    qed
  qed
qed

text \<open>Player 1 launches half of the ten units of its planet.\<close>

theorem units_count_stays_nonnegative_witness:
  "map_of (planets (run match_env (init 8) started)) 1 = Some \<lparr>owner = Some 1, units_count = 10\<rparr>
   \<and> map_of (planets (fst (handle match_env (launch 50) (run match_env (init 8) started)))) 1
       = Some \<lparr>owner = Some 1, units_count = 5\<rparr>
   \<and> (0::int) \<le> units_count \<lparr>owner = Some 1, units_count = 5\<rparr>"
proof -
  let ?s = "run match_env (init 8) started"
  have b: "map_of (planets ?s) 1 = Some \<lparr>owner = Some 1, units_count = 10\<rparr>"
    by code_simp
  have b0: "0 \<le> units_count \<lparr>owner = Some 1, units_count = 10\<rparr>"
    by simp
  have a: "map_of (planets (fst (handle match_env (launch 50) ?s))) 1 = Some \<lparr>owner = Some 1, units_count = 5\<rparr>"
    by code_simp
  have pc: "payload_int (launch 50) ''percentage'' = Inr 50"
    by code_simp
  have n: "ce_name (launch 50) = PStr ''select''"
    by code_simp
  have pct: "pc \<le> 100"
    if "ce_name (launch 50) = PStr ''select''" "payload_int (launch 50) ''percentage'' = Inr pc" for pc
    using that pc by simp
  have hp: "0 \<le> h"
    if "ce_name (launch 50) = PStr ''add_hp'' \<or> ce_name (launch 50) = PStr ''damage''"
       "payload_int (launch 50) ''hp_count'' = Inr h" for h
    using that n by simp
  have gen: "0 \<le> units_count q" if "(j, q) \<in> set (map_run match_env ids)" for ids j q
    using that by (auto simp: match_env_def)
  have inside: "snd (handle match_env (launch 50) ?s) \<noteq> Some OutsideModel"
    by code_simp
  have "0 \<le> units_count \<lparr>owner = Some 1, units_count = 5\<rparr>"
    by (rule units_count_stays_nonnegative [OF b b0 a pct hp gen inside])
  with a b show ?thesis by blast
qed

text \<open>
  C6 as stated fails for a select event: with a percentage of 200 the planet of player 1
  goes from 10 units to minus 10. The handler checks no value a client submits.
\<close>

theorem select_beyond_all_units:
  "game_started (run match_env (init 8) started)
   \<and> map_of (planets (run match_env (init 8) started)) 1 = Some \<lparr>owner = Some 1, units_count = 10\<rparr>
   \<and> map_of (planets (fst (handle match_env (launch 200) (run match_env (init 8) started)))) 1
       = Some \<lparr>owner = Some 1, units_count = - 10\<rparr>"
  by code_simp

section \<open>Launching units\<close>

text \<open>The loop of a select event, cut at any of its turns, and what one turn does.\<close>

lemma select_loop_append:
  "select_loop E r pv (xs @ ys) sp =
     (case select_loop E r pv xs sp of
        (sp1, None) \<Rightarrow> select_loop E r pv ys sp1
      | (sp1, Some e) \<Rightarrow> (sp1, Some e))"
  by (induction xs arbitrary: sp) (simp_all split: sum.splits)

lemma select_loop_prefix:
  assumes "select_loop E r pv (xs @ ys) sp = (sp2, None)"
  shows "\<exists>sp1. select_loop E r pv xs sp = (sp1, None) \<and> select_loop E r pv ys sp1 = (sp2, None)"
  using assms
  by (cases "select_loop E r pv xs sp") (auto simp: select_loop_append split: option.splits)

lemma select_loop_turn:
  assumes "select_loop E r pv xs sp = (spn, None)" and "j < length xs"
  shows "\<exists>spj spj1. select_loop E r pv (take j xs) sp = (spj, None)
           \<and> select_planet E r pv (xs ! j) spj = Inr spj1
           \<and> select_loop E r pv (take (Suc j) xs) sp = (spj1, None)"
proof -
  have xs: "xs = take j xs @ (xs ! j # drop (Suc j) xs)"
    using assms(2) by (simp add: id_take_nth_drop [symmetric])
  from assms(1) have "select_loop E r pv (take j xs @ (xs ! j # drop (Suc j) xs)) sp = (spn, None)"
    using xs by simp
  from select_loop_prefix [OF this]
  obtain spj where spj: "select_loop E r pv (take j xs) sp = (spj, None)"
    "select_loop E r pv (xs ! j # drop (Suc j) xs) spj = (spn, None)"
    by blast
  from spj(2) obtain spj1 where t: "select_planet E r pv (xs ! j) spj = Inr spj1"
    by (cases "select_planet E r pv (xs ! j) spj") auto
  have "take (Suc j) xs = take j xs @ [xs ! j]"
    using assms(2) by (rule take_Suc_conv_app_nth)
  then have "select_loop E r pv (take (Suc j) xs) sp = (spj1, None)"
    using spj(1) t by (simp add: select_loop_append)
  with spj(1) t show ?thesis by blast
qed

lemma select_planet_turn:
  assumes "select_planet E r pv x sp = Inr sp1"
  shows "\<exists>k p. py_int x = Inr k \<and> map_of (planets (fst sp)) k = Some p \<and>
           (if owner p = Some (pid (heap (fst sp) r)) then
              \<exists>pc. py_int pv = Inr pc \<and> \<bar>units_count p * pc\<bar> < 2 ^ 53
                \<and> map_of (planets (fst sp1)) =
                    (map_of (planets (fst sp)))(k \<mapsto>
                       p\<lparr>units_count := units_count p - round_half_even (units_count p * pc) 100\<rparr>)
                \<and> id_pos (fst sp1) = id_pos (fst sp) + nat (round_half_even (units_count p * pc) 100)
                \<and> object_ids (heap (fst sp1) r) =
                    object_ids (heap (fst sp) r) @ map (id_seq E) [id_pos (fst sp) ..< id_pos (fst sp1)]
            else sp1 = sp)"
proof -
  from assms obtain k p where k: "py_int x = Inr k" "map_of (planets (fst sp)) k = Some p"
    by (auto simp: select_planet_def Let_def cache_get_def split: sum.splits option.splits)
  show ?thesis
  proof (cases "owner p = Some (pid (heap (fst sp) r))")
    case False
    with assms k have "sp1 = sp"
      by (simp add: select_planet_def Let_def cache_get_def)
    with k False show ?thesis by auto
  next
    case True
    with assms k obtain pc where pc: "py_int pv = Inr pc"
      by (auto simp: select_planet_def Let_def cache_get_def split: sum.splits)
    with assms k True have b: "\<bar>units_count p * pc\<bar> < 2 ^ 53"
      by (auto simp: select_planet_def Let_def cache_get_def py_round_ratio_def split: if_splits)
    then have r: "py_round_ratio (units_count p * pc) 100 = Inr (round_half_even (units_count p * pc) 100)"
      by (simp add: py_round_ratio_def)
    from assms k True pc r
    have "map_of (planets (fst sp1)) =
            (map_of (planets (fst sp)))(k \<mapsto>
               p\<lparr>units_count := units_count p - round_half_even (units_count p * pc) 100\<rparr>)"
      and "id_pos (fst sp1) = id_pos (fst sp) + nat (round_half_even (units_count p * pc) 100)"
      and "object_ids (heap (fst sp1) r) =
             object_ids (heap (fst sp) r) @ map (id_seq E) [id_pos (fst sp) ..< id_pos (fst sp1)]"
      by (auto simp: select_planet_def Let_def cache_get_def update_conv')
    with k True pc b show ?thesis by auto
  qed
qed

lemma select_planet_pid:
  "select_planet E r pv x sp = Inr sp1 \<Longrightarrow> pid (heap (fst sp1) q) = pid (heap (fst sp) q)"
  by (auto simp: select_planet_def Let_def split: sum.splits if_splits)

lemma select_loop_pid:
  "select_loop E r pv xs sp = (sp1, e) \<Longrightarrow> pid (heap (fst sp1) q) = pid (heap (fst sp) q)"
  by (induction xs arbitrary: sp) (auto split: sum.splits dest: select_planet_pid)

text \<open>
  Every unit id a player holds has been drawn from the generator: the invariant of all
  runs that makes a newly drawn id a new one.
\<close>

lemma ids_drawn_mono: "id_pos s \<le> id_pos s1 \<Longrightarrow> ids_drawn E s \<subseteq> ids_drawn E s1"
  by (auto simp: ids_drawn_def)

lemma ids_drawn_new: "set (map (id_seq E) [id_pos s ..< n]) \<subseteq> id_seq E ` {..< n}"
  by auto

lemma select_planet_held:
  assumes "select_planet E r pv x sp = Inr sp1"
    and "\<And>q. set (object_ids (heap (fst sp) q)) \<subseteq> ids_drawn E (fst sp)"
  shows "set (object_ids (heap (fst sp1) q)) \<subseteq> ids_drawn E (fst sp1)"
proof (cases "fst sp1 = fst sp")
  case True
  with assms(2) show ?thesis by simp
next
  case False
  with assms(1) obtain n where
    n: "id_pos (fst sp1) = id_pos (fst sp) + n"
       "heap (fst sp1) = (heap (fst sp))(r := (heap (fst sp) r)\<lparr>object_ids :=
           object_ids (heap (fst sp) r) @ map (id_seq E) [id_pos (fst sp) ..< id_pos (fst sp) + n]\<rparr>)"
    by (auto simp: select_planet_def Let_def split: sum.splits if_splits)
  have old: "set (object_ids (heap (fst sp) q')) \<subseteq> ids_drawn E (fst sp1)" for q'
    using assms(2) [of q'] ids_drawn_mono [of "fst sp" "fst sp1" E] n(1) by auto
  have new: "set (map (id_seq E) [id_pos (fst sp) ..< id_pos (fst sp) + n]) \<subseteq> ids_drawn E (fst sp1)"
    using ids_drawn_new [of E "fst sp" "id_pos (fst sp) + n"] n(1) by (simp add: ids_drawn_def)
  show ?thesis
    using old [of q] old [of r] new by (auto simp: n(2))
qed

lemma select_loop_held:
  assumes "select_loop E r pv xs sp = (sp1, e)"
    and "\<And>q. set (object_ids (heap (fst sp) q)) \<subseteq> ids_drawn E (fst sp)"
  shows "set (object_ids (heap (fst sp1) q)) \<subseteq> ids_drawn E (fst sp1)"
  using assms
proof (induction xs arbitrary: sp)
  case Nil
  then show ?case by simp
next
  case (Cons x xs)
  show ?case
  proof (cases "select_planet E r pv x sp")
    case (Inl err)
    with Cons.prems show ?thesis by simp
  next
    case (Inr sp2)
    with Cons.prems(1) have l: "select_loop E r pv xs sp2 = (sp1, e)" by simp
    have "\<And>q. set (object_ids (heap (fst sp2) q)) \<subseteq> ids_drawn E (fst sp2)"
      using select_planet_held [OF Inr] Cons.prems(2) by blast
    from Cons.IH [OF l this] show ?thesis .
  qed
qed

lemma handle_select_held:
  assumes "\<And>q. set (object_ids (heap s q)) \<subseteq> ids_drawn E s"
  shows "set (object_ids (heap (fst (handle_select E ev s)) q)) \<subseteq> ids_drawn E (fst (handle_select E ev s))"
proof (cases "\<exists>f pv xs. payload_get ev ''from'' = Inr f \<and> payload_get ev ''percentage'' = Inr pv
                 \<and> py_iter f = Inr xs")
  case False
  then have "fst (handle_select E ev s) = s"
    by (auto simp: handle_select_def split: sum.splits)
  with assms show ?thesis by simp
next
  case True
  then obtain f pv xs where r: "payload_get ev ''from'' = Inr f"
    "payload_get ev ''percentage'' = Inr pv" "py_iter f = Inr xs" by blast
  obtain sp e where l: "select_loop E (ce_player ev) pv xs (s, []) = (sp, e)"
    by (cases "select_loop E (ce_player ev) pv xs (s, [])") auto
  have h: "heap (fst (handle_select E ev s)) = heap (fst sp)"
    "id_pos (fst (handle_select E ev s)) = id_pos (fst sp)"
    using r l by (simp_all add: handle_select_def split: option.splits)
  have "set (object_ids (heap (fst sp) q)) \<subseteq> ids_drawn E (fst sp)"
    using select_loop_held [OF l] assms by simp
  then show ?thesis by (simp add: h ids_drawn_def)
qed

lemma handle_damage_held:
  assumes "\<And>q. set (object_ids (heap s q)) \<subseteq> ids_drawn E s"
  shows "set (object_ids (heap (fst (handle_damage ev s)) q)) \<subseteq> ids_drawn E (fst (handle_damage ev s))"
proof (cases "\<exists>j u h p. payload_int ev ''planet_id'' = Inr j \<and> payload_int ev ''unit_id'' = Inr u
                 \<and> hp_count_of ev = Inr h \<and> map_of (planets s) j = Some p")
  case False
  then have "fst (handle_damage ev s) = s"
    by (auto simp: handle_damage_def cache_get_def split: sum.splits option.splits)
  with assms show ?thesis by simp
next
  case True
  then obtain j u h p where r: "payload_int ev ''planet_id'' = Inr j"
    "payload_int ev ''unit_id'' = Inr u" "hp_count_of ev = Inr h" "map_of (planets s) j = Some p"
    by blast
  have e: "heap (fst (handle_damage ev s)) = heap (apply_damage ev j u h p s)"
    "id_pos (fst (handle_damage ev s)) = id_pos (apply_damage ev j u h p s)"
    using r by (simp_all add: handle_damage_resolved check_game_over_frame)
  have "id_pos (apply_damage ev j u h p s) = id_pos s"
    by (simp add: apply_damage_def Let_def)
  moreover have "set (object_ids (heap (apply_damage ev j u h p s) q)) \<subseteq> set (object_ids (heap s q))"
    by (auto simp: apply_damage_def Let_def dest: set_remove1_subset [THEN subsetD])
  ultimately show ?thesis
    using assms [of q] by (auto simp: e ids_drawn_def)
qed

lemma handle_held:
  assumes "\<And>q. set (object_ids (heap s q)) \<subseteq> ids_drawn E s"
  shows "set (object_ids (heap (fst (handle E ev s)) q)) \<subseteq> ids_drawn E (fst (handle E ev s))"
proof -
  have lobby: "set (object_ids (heap (fst (handle_lobby E ev s)) q)) \<subseteq> ids_drawn E (fst (handle_lobby E ev s))" for q
    using assms [of q]
    by (auto simp: handle_lobby_def handle_ready_def handle_rendered_def Let_def ids_drawn_def
             split: sum.splits)
  have game: "set (object_ids (heap (fst (handle_game E ev s1)) q)) \<subseteq> ids_drawn E (fst (handle_game E ev s1))"
    if "\<And>q. set (object_ids (heap s1 q)) \<subseteq> ids_drawn E s1" for s1
  proof -
    have simple: "set (object_ids (heap (fst (handle_move ev s1)) q)) \<subseteq> ids_drawn E (fst (handle_move ev s1))"
      "set (object_ids (heap (fst (handle_add_hp ev s1)) q)) \<subseteq> ids_drawn E (fst (handle_add_hp ev s1))"
      using that [of q]
      by (auto simp: handle_move_def handle_add_hp_def ids_drawn_def split: sum.splits)
    show ?thesis
      using that [of q] simple handle_select_held [of s1 E ev q, OF that] handle_damage_held [of s1 E ev q, OF that]
      by (simp add: handle_game_def)
  qed
  obtain s1 e where l: "handle_lobby E ev s = (s1, e)" by (cases "handle_lobby E ev s") auto
  have s1: "\<And>q. set (object_ids (heap s1 q)) \<subseteq> ids_drawn E s1"
    using lobby l by simp
  show ?thesis
    using l s1 [of q] game [OF s1]
    by (cases e) (simp_all add: handle_def)
qed

lemma step_held:
  assumes "\<And>q. set (object_ids (heap s q)) \<subseteq> ids_drawn E s"
  shows "set (object_ids (heap (step E a s) q)) \<subseteq> ids_drawn E (step E a s)"
proof (cases a)
  case (Accept addr)
  then show ?thesis
    using assms [of q] by (simp add: wait_for_client_def Let_def Player_def ids_drawn_def)
next
  case (Data c n obj)
  then show ?thesis
    using assms [of q] by (simp add: wait_for_client_data_def ids_drawn_def split: option.splits)
next
  case (Close c)
  then show ?thesis
    using assms [of q] by (simp add: remove_client_def ids_drawn_def)
next
  case Step
  show ?thesis
  proof (cases "handler_queue s")
    case Nil
    with Step assms [of q] show ?thesis by (simp add: handler_turn_def)
  next
    case (Cons ev rest)
    have "\<And>q. set (object_ids (heap (s\<lparr>handler_queue := rest\<rparr>) q)) \<subseteq> ids_drawn E (s\<lparr>handler_queue := rest\<rparr>)"
      using assms by (simp add: ids_drawn_def)
    from handle_held [of "s\<lparr>handler_queue := rest\<rparr>" E ev q, OF this] Step Cons
    show ?thesis by (simp add: handler_turn_def)
  qed
qed

lemma run_held:
  assumes "\<And>q. set (object_ids (heap s q)) \<subseteq> ids_drawn E s"
  shows "set (object_ids (heap (run E s acts) q)) \<subseteq> ids_drawn E (run E s acts)"
  using assms
proof (induction acts arbitrary: s q)
  case Nil
  then show ?case by simp
next
  case (Cons a acts)
  have "\<And>q. set (object_ids (heap (step E a s) q)) \<subseteq> ids_drawn E (step E a s)"
    using step_held Cons.prems by blast
  from Cons.IH [OF this] show ?case by simp
qed

lemma reachable_held:
  "set (object_ids (heap (run E (init m) acts) q)) \<subseteq> ids_drawn E (run E (init m) acts)"
  by (rule run_held) (simp add: init_def Player_def)

lemma handle_select_started:
  "game_started s \<Longrightarrow> ce_name ev = PStr ''select'' \<Longrightarrow> handle E ev s = handle_select E ev s"
  by (simp add: handle_not_lobby handle_game_def)

lemma fresh_ids:
  assumes "strict_mono (id_seq E)" and "id_pos s \<le> n"
  shows "distinct (map (id_seq E) [id_pos s ..< n])"
    and "set (map (id_seq E) [id_pos s ..< n]) \<inter> ids_drawn E s = {}"
proof -
  have inj: "inj (id_seq E)"
    using assms(1) by (rule strict_mono_imp_inj_on)
  then show "distinct (map (id_seq E) [id_pos s ..< n])"
    by (simp add: distinct_map inj_on_def)
  show "set (map (id_seq E) [id_pos s ..< n]) \<inter> ids_drawn E s = {}"
    using inj by (fastforce simp: ids_drawn_def inj_on_def)
qed

lemma handle_select_ok:
  assumes "game_started s" and "ce_name ev = PStr ''select''" and "snd (handle E ev s) = None"
    and "payload_get ev ''from'' = Inr f" and "py_iter f = Inr xs"
    and "payload_get ev ''percentage'' = Inr pv"
  shows "\<exists>spn. select_loop E (ce_player ev) pv xs (s, []) = (spn, None)
               \<and> handle E ev s = (notify (ce_name ev) [(KStr ''selected'', PDict (snd spn))] (fst spn), None)"
proof -
  obtain spn e where l: "select_loop E (ce_player ev) pv xs (s, []) = (spn, e)"
    by (cases "select_loop E (ce_player ev) pv xs (s, [])") auto
  have h: "handle E ev s = handle_select E ev s"
    using assms(1,2) by (rule handle_select_started)
  show ?thesis
  proof (cases e)
    case None
    with l assms(4-6) h show ?thesis by (simp add: handle_select_def)
  next
    case (Some err)
    with l assms(4-6) h have "snd (handle E ev s) = Some err" by (simp add: handle_select_def)
    with assms(3) show ?thesis by simp
  qed
qed

text \<open>
  C7 (as amended). In a state reached by a run of the server with the game started, with
  a strictly monotonic id generator, take a select event whose handling ends without an
  error: nothing is raised, and every product of a unit count and the percentage that is
  rounded is below \<open>2 ^ 53\<close> in absolute value, where the double quotient rounds like the
  exact one (a larger product ends the handling with \<open>OutsideModel\<close>).
  The loop over the requested planets is followed turn by turn, a planet named twice being
  a turn each time: \<open>loop_state \<dots> j\<close> is the state before turn \<open>j\<close>, the one before turn
  0 is the state of the event and the one after the last turn gives the planets, the
  players and the generator of the handled event. In turn \<open>j\<close> the request names a planet
  of the cache. If the sender owns it at that moment, the percentage reads as an integer,
  the product of the planet's units and the percentage is below \<open>2 ^ 53\<close> in absolute
  value, the planet loses exactly \<open>round(units_count * percentage / 100)\<close> units (a tie to the
  even count), the generator advances by that count (by nothing when the count is
  negative), and the sender's unit list grows by exactly the ids drawn in the turn, which
  are distinct and differ from every id drawn before; every id held by a player was drawn
  before. If the sender does not own the planet, the turn changes nothing.
\<close>

theorem select_launches_units:
  assumes mono: "strict_mono (id_seq E)"
    and reach: "s = run E (init m) acts"
    and gs: "game_started s" and nm: "ce_name ev = PStr ''select''"
    and ok: "snd (handle E ev s) = None"
    and req: "payload_get ev ''from'' = Inr f" "py_iter f = Inr xs"
    and pct: "payload_get ev ''percentage'' = Inr pv"
    and j: "j < length xs"
  shows "(\<exists>k p. py_int (xs ! j) = Inr k
           \<and> map_of (planets (loop_state E (ce_player ev) pv xs s j)) k = Some p
           \<and> (if owner p = Some (pid (heap s (ce_player ev))) then
                \<exists>pc. py_int pv = Inr pc \<and> \<bar>units_count p * pc\<bar> < 2 ^ 53
                  \<and> map_of (planets (loop_state E (ce_player ev) pv xs s (Suc j))) =
                      (map_of (planets (loop_state E (ce_player ev) pv xs s j)))(k \<mapsto>
                         p\<lparr>units_count := units_count p - round_half_even (units_count p * pc) 100\<rparr>)
                  \<and> id_pos (loop_state E (ce_player ev) pv xs s (Suc j)) =
                      id_pos (loop_state E (ce_player ev) pv xs s j)
                        + nat (round_half_even (units_count p * pc) 100)
                  \<and> object_ids (heap (loop_state E (ce_player ev) pv xs s (Suc j)) (ce_player ev)) =
                      object_ids (heap (loop_state E (ce_player ev) pv xs s j) (ce_player ev))
                        @ map (id_seq E) [id_pos (loop_state E (ce_player ev) pv xs s j) ..<
                                           id_pos (loop_state E (ce_player ev) pv xs s (Suc j))]
                  \<and> distinct (map (id_seq E) [id_pos (loop_state E (ce_player ev) pv xs s j) ..<
                                               id_pos (loop_state E (ce_player ev) pv xs s (Suc j))])
                  \<and> set (map (id_seq E) [id_pos (loop_state E (ce_player ev) pv xs s j) ..<
                                          id_pos (loop_state E (ce_player ev) pv xs s (Suc j))])
                      \<inter> ids_drawn E (loop_state E (ce_player ev) pv xs s j) = {}
                  \<and> (\<forall>q. set (object_ids (heap (loop_state E (ce_player ev) pv xs s j) q))
                            \<subseteq> ids_drawn E (loop_state E (ce_player ev) pv xs s j))
              else loop_state E (ce_player ev) pv xs s (Suc j) = loop_state E (ce_player ev) pv xs s j))
         \<and> loop_state E (ce_player ev) pv xs s 0 = s
         \<and> planets (fst (handle E ev s)) = planets (loop_state E (ce_player ev) pv xs s (length xs))
         \<and> heap (fst (handle E ev s)) = heap (loop_state E (ce_player ev) pv xs s (length xs))
         \<and> id_pos (fst (handle E ev s)) = id_pos (loop_state E (ce_player ev) pv xs s (length xs))"
proof -
  let ?r = "ce_player ev"
  let ?B = "loop_state E ?r pv xs s j" and ?A = "loop_state E ?r pv xs s (Suc j)"
  from handle_select_ok [OF gs nm ok req pct]
  obtain spn where l: "select_loop E ?r pv xs (s, []) = (spn, None)"
    and h: "handle E ev s = (notify (ce_name ev) [(KStr ''selected'', PDict (snd spn))] (fst spn), None)"
    by blast
  from select_loop_turn [OF l j]
  obtain spj spj1 where t: "select_loop E ?r pv (take j xs) (s, []) = (spj, None)"
    "select_planet E ?r pv (xs ! j) spj = Inr spj1"
    "select_loop E ?r pv (take (Suc j) xs) (s, []) = (spj1, None)"
    by blast
  have B: "?B = fst spj" and A: "?A = fst spj1"
    using t by (simp_all add: loop_state_def)
  have me: "pid (heap (fst spj) ?r) = pid (heap s ?r)"
    using select_loop_pid [OF t(1), of ?r] by simp
  have held: "set (object_ids (heap (fst spj) q)) \<subseteq> ids_drawn E (fst spj)" for q
  proof (rule select_loop_held [OF t(1)])
    fix q'
    show "set (object_ids (heap (fst (s, []::pydict)) q')) \<subseteq> ids_drawn E (fst (s, []::pydict))"
      unfolding reach by (simp add: reachable_held)
  qed
  from select_planet_turn [OF t(2)]
  obtain k p where k: "py_int (xs ! j) = Inr k" "map_of (planets (fst spj)) k = Some p"
    and eff: "if owner p = Some (pid (heap (fst spj) ?r)) then
              \<exists>pc. py_int pv = Inr pc \<and> \<bar>units_count p * pc\<bar> < 2 ^ 53
                \<and> map_of (planets (fst spj1)) =
                    (map_of (planets (fst spj)))(k \<mapsto>
                       p\<lparr>units_count := units_count p - round_half_even (units_count p * pc) 100\<rparr>)
                \<and> id_pos (fst spj1) = id_pos (fst spj) + nat (round_half_even (units_count p * pc) 100)
                \<and> object_ids (heap (fst spj1) ?r) =
                    object_ids (heap (fst spj) ?r) @ map (id_seq E) [id_pos (fst spj) ..< id_pos (fst spj1)]
            else spj1 = spj"
    by blast
  have turn: "if owner p = Some (pid (heap s ?r)) then
                \<exists>pc. py_int pv = Inr pc \<and> \<bar>units_count p * pc\<bar> < 2 ^ 53
                  \<and> map_of (planets ?A) =
                      (map_of (planets ?B))(k \<mapsto>
                         p\<lparr>units_count := units_count p - round_half_even (units_count p * pc) 100\<rparr>)
                  \<and> id_pos ?A = id_pos ?B + nat (round_half_even (units_count p * pc) 100)
                  \<and> object_ids (heap ?A ?r) =
                      object_ids (heap ?B ?r) @ map (id_seq E) [id_pos ?B ..< id_pos ?A]
                  \<and> distinct (map (id_seq E) [id_pos ?B ..< id_pos ?A])
                  \<and> set (map (id_seq E) [id_pos ?B ..< id_pos ?A]) \<inter> ids_drawn E ?B = {}
                  \<and> (\<forall>q. set (object_ids (heap ?B q)) \<subseteq> ids_drawn E ?B)
              else ?A = ?B"
  proof (cases "owner p = Some (pid (heap s ?r))")
    case False
    with eff me show ?thesis by (simp add: A B)
  next
    case True
    with eff me obtain pc where pc: "py_int pv = Inr pc" "\<bar>units_count p * pc\<bar> < 2 ^ 53"
      "map_of (planets (fst spj1)) =
         (map_of (planets (fst spj)))(k \<mapsto>
            p\<lparr>units_count := units_count p - round_half_even (units_count p * pc) 100\<rparr>)"
      "id_pos (fst spj1) = id_pos (fst spj) + nat (round_half_even (units_count p * pc) 100)"
      "object_ids (heap (fst spj1) ?r) =
         object_ids (heap (fst spj) ?r) @ map (id_seq E) [id_pos (fst spj) ..< id_pos (fst spj1)]"
      by auto
    have le: "id_pos (fst spj) \<le> id_pos (fst spj1)" using pc(4) by simp
    note fr = fresh_ids [OF mono le]
    show ?thesis
      using True pc fr held unfolding A B by auto
  qed
  have first: "loop_state E ?r pv xs s 0 = s"
    by (simp add: loop_state_def)
  have last: "loop_state E ?r pv xs s (length xs) = fst spn"
    using l by (simp add: loop_state_def)
  show ?thesis
    using k turn first unfolding last B by (auto simp: h B)
qed

text \<open>
  The example of the spec: 50 percent of a planet with 10 units gives 5 new ids and
  leaves 5 units.
\<close>

theorem select_launches_units_witness:
  "game_started (run match_env (init 8) started)
   \<and> map_of (planets (run match_env (init 8) started)) 1 = Some \<lparr>owner = Some 1, units_count = 10\<rparr>
   \<and> object_ids (heap (run match_env (init 8) started) 0) = []
   \<and> snd (handle match_env (launch 50) (run match_env (init 8) started)) = None
   \<and> map_of (planets (fst (handle match_env (launch 50) (run match_env (init 8) started)))) 1
       = Some \<lparr>owner = Some 1, units_count = 5\<rparr>
   \<and> object_ids (heap (fst (handle match_env (launch 50) (run match_env (init 8) started))) 0)
       = [100, 101, 102, 103, 104]"
proof -
  let ?s = "run match_env (init 8) started"
  let ?A = "loop_state match_env (ce_player (launch 50)) (PInt 50) [PInt 1] ?s (Suc 0)"
  have mono: "strict_mono (id_seq match_env)"
    by (simp add: match_env_def strict_mono_def)
  have gs: "game_started ?s"
    by code_simp
  have nm: "ce_name (launch 50) = PStr ''select''"
    by code_simp
  have ok: "snd (handle match_env (launch 50) ?s) = None"
    by code_simp
  have f: "payload_get (launch 50) ''from'' = Inr (PList [PInt 1])"
    by code_simp
  have it: "py_iter (PList [PInt 1]) = Inr [PInt 1]"
    by simp
  have pv: "payload_get (launch 50) ''percentage'' = Inr (PInt 50)"
    by code_simp
  have j: "0 < length [PInt 1]"
    by simp
  have p: "map_of (planets ?s) 1 = Some \<lparr>owner = Some 1, units_count = 10\<rparr>"
    by code_simp
  have me: "pid (heap ?s 0) = 1" "ce_player (launch 50) = 0"
    by code_simp+
  have ids: "object_ids (heap ?s 0) = []" "id_pos ?s = 0"
    by code_simp+
  have r: "round_half_even 500 100 = 5"
    by code_simp
  have sq: "id_seq match_env = (\<lambda>n. 100 + int n)"
    by (simp add: match_env_def)
  note t = select_launches_units [OF mono refl gs nm ok f it pv j]
  have z: "loop_state match_env (ce_player (launch 50)) (PInt 50) [PInt 1] ?s 0 = ?s"
    using t by blast
  have fin: "planets (fst (handle match_env (launch 50) ?s)) = planets ?A"
    "heap (fst (handle match_env (launch 50) ?s)) = heap ?A"
    using t by simp_all
  from t obtain k q where kq: "py_int ([PInt 1] ! 0) = Inr k"
    "map_of (planets (loop_state match_env (ce_player (launch 50)) (PInt 50) [PInt 1] ?s 0)) k = Some q"
    and turn: "if owner q = Some (pid (heap ?s (ce_player (launch 50)))) then
       \<exists>pc. py_int (PInt 50) = Inr pc \<and> \<bar>units_count q * pc\<bar> < 2 ^ 53
         \<and> map_of (planets ?A) =
             (map_of (planets (loop_state match_env (ce_player (launch 50)) (PInt 50) [PInt 1] ?s 0)))(k \<mapsto>
                q\<lparr>units_count := units_count q - round_half_even (units_count q * pc) 100\<rparr>)
         \<and> id_pos ?A = id_pos (loop_state match_env (ce_player (launch 50)) (PInt 50) [PInt 1] ?s 0)
               + nat (round_half_even (units_count q * pc) 100)
         \<and> object_ids (heap ?A (ce_player (launch 50))) =
             object_ids (heap (loop_state match_env (ce_player (launch 50)) (PInt 50) [PInt 1] ?s 0) (ce_player (launch 50)))
               @ map (id_seq match_env) [id_pos (loop_state match_env (ce_player (launch 50)) (PInt 50) [PInt 1] ?s 0) ..< id_pos ?A]
         \<and> distinct (map (id_seq match_env) [id_pos (loop_state match_env (ce_player (launch 50)) (PInt 50) [PInt 1] ?s 0) ..< id_pos ?A])
         \<and> set (map (id_seq match_env) [id_pos (loop_state match_env (ce_player (launch 50)) (PInt 50) [PInt 1] ?s 0) ..< id_pos ?A])
             \<inter> ids_drawn match_env (loop_state match_env (ce_player (launch 50)) (PInt 50) [PInt 1] ?s 0) = {}
         \<and> (\<forall>q'. set (object_ids (heap (loop_state match_env (ce_player (launch 50)) (PInt 50) [PInt 1] ?s 0) q'))
                   \<subseteq> ids_drawn match_env (loop_state match_env (ce_player (launch 50)) (PInt 50) [PInt 1] ?s 0))
      else ?A = loop_state match_env (ce_player (launch 50)) (PInt 50) [PInt 1] ?s 0"
    by blast
  from kq have k1: "k = 1" by simp
  from kq(2) p have q: "q = \<lparr>owner = Some 1, units_count = 10\<rparr>" by (simp add: z k1)
  from turn have
    pl: "map_of (planets ?A) = (map_of (planets ?s))(1 \<mapsto> \<lparr>owner = Some 1, units_count = 5\<rparr>)"
    and pos: "id_pos ?A = 5"
    and oi: "object_ids (heap ?A 0) = map (id_seq match_env) [0 ..< id_pos ?A]"
    by (simp_all add: z z [unfolded me(2)] k1 q me ids r)
  have b: "map_of (planets (fst (handle match_env (launch 50) ?s))) 1 = Some \<lparr>owner = Some 1, units_count = 5\<rparr>"
    by (simp add: fin pl)
  have c: "object_ids (heap (fst (handle match_env (launch 50) ?s)) 0) = [100, 101, 102, 103, 104]"
    by (simp add: fin oi pos sq upt_rec)
  from gs p ids ok b c show ?thesis by blast
qed

text \<open>
  C7 as stated fails for a negative percentage: with minus 50 the count is minus 5, the
  planet goes from 10 to 15 units, and no id is minted, since \<^verbatim>\<open>range\<close> of a negative
  number is empty.
\<close>

theorem select_negative_percentage:
  "game_started (run match_env (init 8) started)
   \<and> map_of (planets (run match_env (init 8) started)) 1 = Some \<lparr>owner = Some 1, units_count = 10\<rparr>
   \<and> py_round_ratio (10 * (- 50)) 100 = Inr (- 5)
   \<and> snd (handle match_env (launch (- 50)) (run match_env (init 8) started)) = None
   \<and> map_of (planets (fst (handle match_env (launch (- 50)) (run match_env (init 8) started)))) 1
       = Some \<lparr>owner = Some 1, units_count = 15\<rparr>
   \<and> object_ids (heap (fst (handle match_env (launch (- 50)) (run match_env (init 8) started))) 0) = []
   \<and> id_pos (fst (handle match_env (launch (- 50)) (run match_env (init 8) started)))
       = id_pos (run match_env (init 8) started)"
  by code_simp

section \<open>The wire format read back\<close>

subsection \<open>Numbers\<close>














subsection \<open>Strings\<close>

lemma hex_val_hex_digit: "k < 16 \<Longrightarrow> hex_val (hex_digit k) = Some k"
  by (auto simp: hex_val_def hex_digit_def Let_def)

lemma hex4_byte:
  assumes "n < 256"
  shows "hex4 (CHR ''0'') (CHR ''0'') (hex_digit (n div 16)) (hex_digit (n mod 16)) = Some n"
proof -
  have a: "n div 16 < 16" using assms by simp
  have b: "n mod 16 < 16" by simp
  have z: "hex_val (CHR ''0'') = Some 0" by (simp add: hex_val_def)
  show ?thesis
    by (simp add: hex4_def z hex_val_hex_digit [OF a] hex_val_hex_digit [OF b])
qed

lemma of_char_less_256: "(of_char c :: nat) < 256"
  by (cases c) simp

lemma parse_str_unicode:
  "parse_str (CHR 0x5C # CHR ''u'' # CHR ''0'' # CHR ''0'' #
              hex_digit (of_char c div 16) # hex_digit (of_char c mod 16) # rest0)
     = cons_result c (parse_str rest0)"
  using hex4_byte [OF of_char_less_256 [of c]] of_char_less_256 [of c]
  by simp

lemma parse_str_plain:
  "c \<noteq> CHR 0x22 \<Longrightarrow> c \<noteq> CHR 0x5C \<Longrightarrow> is_printable c \<Longrightarrow>
   parse_str (c # rest0) = cons_result c (parse_str rest0)"
  by (simp add: is_printable_def)

lemma parse_str_escape_char: "parse_str (escape_char c @ rest0) = cons_result c (parse_str rest0)"
proof -
  consider (quote) "c = CHR 0x22" | (backslash) "c = CHR 0x5C" | (n) "c = CHR 0x0A" | (r) "c = CHR 0x0D"
    | (t) "c = CHR 0x09" | (b) "c = CHR 0x08" | (f) "c = CHR 0x0C"
    | (plain) "c \<noteq> CHR 0x22" "c \<noteq> CHR 0x5C" "c \<noteq> CHR 0x0A" "c \<noteq> CHR 0x0D" "c \<noteq> CHR 0x09"
              "c \<noteq> CHR 0x08" "c \<noteq> CHR 0x0C" "is_printable c"
    | (other) "c \<noteq> CHR 0x22" "c \<noteq> CHR 0x5C" "c \<noteq> CHR 0x0A" "c \<noteq> CHR 0x0D" "c \<noteq> CHR 0x09"
              "c \<noteq> CHR 0x08" "c \<noteq> CHR 0x0C" "\<not> is_printable c"
    by blast
  then show ?thesis
  proof cases
    case quote
    then show ?thesis by (simp add: escape_char_def unescape_def)
  next
    case backslash
    then show ?thesis by (simp add: escape_char_def unescape_def)
  next
    case n
    then show ?thesis by (simp add: escape_char_def unescape_def)
  next
    case r
    then show ?thesis by (simp add: escape_char_def unescape_def)
  next
    case t
    then show ?thesis by (simp add: escape_char_def unescape_def)
  next
    case b
    then show ?thesis by (simp add: escape_char_def unescape_def)
  next
    case f
    then show ?thesis by (simp add: escape_char_def unescape_def)
  next
    case plain
    then have "escape_char c = [c]" by (simp add: escape_char_def)
    with plain parse_str_plain [of c rest0] show ?thesis by (simp del: parse_str.simps)
  next
    case other
    then have "escape_char c = [CHR 0x5C, CHR ''u'', CHR ''0'', CHR ''0'',
            hex_digit (of_char c div 16), hex_digit (of_char c mod 16)]"
      by (simp add: escape_char_def)
    with parse_str_unicode [of c rest0] show ?thesis by (simp del: parse_str.simps)
  qed
qed

lemma parse_str_escape:
  "parse_str (concat (map escape_char s) @ CHR 0x22 # rest) = Inr (s, rest)"
  by (induction s) (simp_all add: parse_str_escape_char cons_result_def)

lemma parse_str_quote:
  "quote s @ rest = CHR 0x22 # t \<Longrightarrow> parse_str t = Inr (s, rest)"
  by (auto simp: quote_def parse_str_escape)

subsection \<open>One element, one member\<close>

















subsection \<open>Values\<close>














subsection \<open>Frames\<close>

lemma ascii_simps [simp]:
  "ascii []" "ascii (c # cs) = ((of_char c :: nat) < 128 \<and> ascii cs)" "ascii (s @ t) = (ascii s \<and> ascii t)"
  by (simp_all add: ascii_def)


















end
